theory Spec2Isabelle
  imports Complex_Main
begin

text \<open>
  The navigation and points-of-interest core of the travel assistant, as it stands in
  \<^verbatim>\<open>src/components/TourGuide.tsx\<close>: the haversine distance, the search for nearby
  places (fetchOverpassPlaces, loadPOIs), the route planner (routeTo, clearRoute) and the
  live guidance (the effect that holds the position watch and its callbacks). Pure
  functions are HOL functions; the component is a record of its state variables and refs,
  its handlers are functions on that record, and the answers of the services and the
  events of the platform are inputs.
\<close>

section \<open>Numbers and coordinates\<close>

text \<open>
  The program is TypeScript; every coordinate and distance is a JavaScript number. The
  embedding idealises these as real numbers: finite, with exact arithmetic, so there is
  no NaN, no infinity and no rounding error. \<open>Math.round\<close> rounds to the nearest integer
  with halves going up.
\<close>

definition Math_round :: "real \<Rightarrow> int" where
  "Math_round x = \<lfloor>x + 1 / 2\<rfloor>"

record Coords =
  lat :: real
  lon :: real

record Place =
  place_id :: string
  place_name :: string
  category :: string
  place_lat :: real
  place_lon :: real
  distanceMeters :: "int option"

subsection \<open>haversine\<close>

definition toRad :: "real \<Rightarrow> real" where
  "toRad deg = (deg * pi) / 180"

definition haversine :: "Coords \<Rightarrow> Coords \<Rightarrow> real" where
  "haversine a b =
     (let R = 6371000;
          dLat = toRad (lat b - lat a);
          dLon = toRad (lon b - lon a);
          lat1 = toRad (lat a);
          lat2 = toRad (lat b);
          s1 = sin (dLat / 2);
          s2 = sin (dLon / 2);
          c = s1 * s1 + cos lat1 * cos lat2 * s2 * s2
      in 2 * R * arcsin (min 1 (sqrt c)))"

text \<open>The quantity \<open>c\<close> under the square root, named for the proofs.\<close>

definition hav_c :: "Coords \<Rightarrow> Coords \<Rightarrow> real" where
  "hav_c a b =
     sin (toRad (lat b - lat a) / 2) * sin (toRad (lat b - lat a) / 2)
     + cos (toRad (lat a)) * cos (toRad (lat b))
       * sin (toRad (lon b - lon a) / 2) * sin (toRad (lon b - lon a) / 2)"

section \<open>JavaScript values\<close>

text \<open>
  An optional field is an \<open>option\<close>. \<open>a || b\<close> on strings yields \<open>b\<close> when \<open>a\<close> is
  \<open>undefined\<close> or the empty string. \<open>String(n)\<close> is the decimal rendering of an integer.
\<close>

definition str_or :: "string option \<Rightarrow> string \<Rightarrow> string" where
  "str_or a b = (case a of None \<Rightarrow> b | Some x \<Rightarrow> if x = [] then b else x)"

fun digits_of :: "nat \<Rightarrow> string" where
  "digits_of n =
     (if n < 10 then [char_of (48 + n)]
      else digits_of (n div 10) @ [char_of (48 + n mod 10)])"

definition String :: "int \<Rightarrow> string" where
  "String i = (if i < 0 then CHR ''-'' # digits_of (nat (- i)) else digits_of (nat i))"

text \<open>
  A \<open>fetch\<close> either rejects (no response at all) or resolves to a response with an HTTP
  status and a body; the body is \<open>None\<close> when it is not valid JSON, in which case
  \<open>res.json()\<close> rejects. \<open>res.ok\<close> holds for the statuses 200 to 299. The service is a
  queue of the responses it will give to successive requests, so that the number of
  requests a function makes is visible in what it leaves of the queue; an exhausted queue
  answers like an unreachable service.
\<close>

datatype 'a response = Rejected | Response nat "'a option"

datatype error =
    TypeError
  | SyntaxError
  | OverpassError nat
  | OSRMError nat
  | NoRouteFound
  | BoundsNotValid

definition ok :: "nat \<Rightarrow> bool" where
  "ok status = (200 \<le> status \<and> status \<le> 299)"

fun fetch :: "'a response list \<Rightarrow> 'a response \<times> 'a response list" where
  "fetch [] = (Rejected, [])"
| "fetch (res # net) = (res, net)"

section \<open>Nearby places: fetchOverpassPlaces\<close>

record Center =
  center_lat :: "real option"
  center_lon :: "real option"

record Tags =
  tag_name :: "string option"
  amenity :: "string option"
  tourism :: "string option"

record OverpassElement =
  el_id :: int
  el_lat :: "real option"
  el_lon :: "real option"
  center :: "Center option"
  tags :: "Tags option"

text \<open>
  The parsed body of an Overpass answer: \<open>Some els\<close> when \<open>json.elements\<close> is an array,
  \<open>None\<close> when it is anything else.
\<close>

type_synonym overpass_json = "OverpassElement list option"

text \<open>The callback of \<open>elements.map\<close>: one raw element to one Place.\<close>

definition overpass_place :: "Coords \<Rightarrow> string \<Rightarrow> OverpassElement \<Rightarrow> Place" where
  "overpass_place coords cat el =
     (let lat' = (case el_lat el of
                    Some v \<Rightarrow> v
                  | None \<Rightarrow> (case center el of
                               None \<Rightarrow> 0
                             | Some ce \<Rightarrow> (case center_lat ce of None \<Rightarrow> 0 | Some v \<Rightarrow> v)));
          lon' = (case el_lon el of
                    Some v \<Rightarrow> v
                  | None \<Rightarrow> (case center el of
                               None \<Rightarrow> 0
                             | Some ce \<Rightarrow> (case center_lon ce of None \<Rightarrow> 0 | Some v \<Rightarrow> v)));
          name = str_or (case tags el of None \<Rightarrow> None | Some t \<Rightarrow> tag_name t) ''Unknown'';
          categoryResolved =
            str_or (case tags el of None \<Rightarrow> None | Some t \<Rightarrow> amenity t)
              (str_or (case tags el of None \<Rightarrow> None | Some t \<Rightarrow> tourism t) cat)
      in \<lparr>place_id = String (el_id el),
          place_name = name,
          category = categoryResolved,
          place_lat = lat',
          place_lon = lon',
          distanceMeters =
            (if lat' \<noteq> 0 \<and> lon' \<noteq> 0
             then Some (Math_round (haversine coords \<lparr>lat = lat', lon = lon'\<rparr>))
             else None)\<rparr>)"

text \<open>
  \<open>places.sort((a, b) => (a.distanceMeters ?? 0) - (b.distanceMeters ?? 0))\<close>:
  \<open>Array.prototype.sort\<close> is stable, and a stable sort by a key is unique, so it is the
  library's stable insertion sort by that key.
\<close>

definition sort_key_of :: "Place \<Rightarrow> int" where
  "sort_key_of p = (case distanceMeters p of None \<Rightarrow> 0 | Some d \<Rightarrow> d)"

definition sort_places :: "Place list \<Rightarrow> Place list" where
  "sort_places ps = sort_key sort_key_of ps"

text \<open>The places before sorting: mapped, then filtered by \<open>p.lat && p.lon\<close>.\<close>

definition raw_places :: "Coords \<Rightarrow> string \<Rightarrow> OverpassElement list \<Rightarrow> Place list" where
  "raw_places coords cat els =
     filter (\<lambda>p. place_lat p \<noteq> 0 \<and> place_lon p \<noteq> 0) (map (overpass_place coords cat) els)"

text \<open>
  The request itself (the query string built from the radius, the centre and the
  category) does not take part: the answer is an input.
\<close>

definition fetchOverpassPlaces ::
  "Coords \<Rightarrow> string \<Rightarrow> overpass_json response list
     \<Rightarrow> (error + Place list) \<times> overpass_json response list" where
  "fetchOverpassPlaces coords cat net =
     (case fetch net of
        (res, net') \<Rightarrow>
          (case res of
             Rejected \<Rightarrow> (Inl TypeError, net')
           | Response status body \<Rightarrow>
               if \<not> ok status then (Inl (OverpassError status), net')
               else (case body of
                       None \<Rightarrow> (Inl SyntaxError, net')
                     | Some json \<Rightarrow>
                         let elements = (case json of Some els \<Rightarrow> els | None \<Rightarrow> [])
                         in (Inr (sort_places (raw_places coords cat elements)), net'))))"

section \<open>Routes\<close>

record Maneuver =
  mtype :: "string option"
  modifier :: "string option"
  location :: "real \<times> real"

record RouteStep =
  name :: string
  distance :: real
  duration :: real
  maneuver :: "Maneuver option"

record Leg =
  steps :: "RouteStep list option"

record Route =
  geometry :: "(real \<times> real) list"
  legs :: "Leg list option"

text \<open>\<open>data.routes\<close> of the routing answer: \<open>None\<close> when the field is missing.\<close>

type_synonym OSRMRouteResponse = "Route list option"

definition distanceToManeuver :: "Coords \<Rightarrow> real \<times> real \<Rightarrow> real" where
  "distanceToManeuver from maneuverLoc =
     (let lat' = snd maneuverLoc; lon' = fst maneuverLoc
      in haversine from \<lparr>lat = lat', lon = lon'\<rparr>)"

text \<open>
  The loop of the position callback. \<open>best = None\<close> stands for \<open>bestIdx = -1\<close>,
  \<open>bestDist = Infinity\<close>; \<open>i\<close> is the index of the head of the remaining steps.
\<close>

fun nearest_from ::
  "nat \<Rightarrow> (nat \<times> real) option \<Rightarrow> RouteStep list \<Rightarrow> Coords \<Rightarrow> (nat \<times> real) option" where
  "nearest_from i best [] c = best"
| "nearest_from i best (st # rest) c =
     (case maneuver st of
        None \<Rightarrow> nearest_from (Suc i) best rest c
      | Some m \<Rightarrow>
          let d = distanceToManeuver c (location m)
          in if (case best of None \<Rightarrow> True | Some (bestIdx, bestDist) \<Rightarrow> d < bestDist)
             then nearest_from (Suc i) (Some (i, d)) rest c
             else nearest_from (Suc i) best rest c)"

definition nearest :: "RouteStep list \<Rightarrow> Coords \<Rightarrow> (nat \<times> real) option" where
  "nearest steps' c = nearest_from 0 None steps' c"

text \<open>The instruction text \<open>`${action}${modifier}${road}`\<close>.\<close>

definition instruction :: "RouteStep \<Rightarrow> string" where
  "instruction s =
     (let action = str_or (case maneuver s of None \<Rightarrow> None | Some m \<Rightarrow> mtype m) ''Proceed'';
          modif = (case maneuver s of
                     None \<Rightarrow> []
                   | Some m \<Rightarrow> (case modifier m of
                                  None \<Rightarrow> []
                                | Some x \<Rightarrow> if x = [] then [] else '' '' @ x));
          road = (if name s \<noteq> [] then '' on '' @ name s else [])
      in action @ modif @ road)"

section \<open>The TourGuide component\<close>

text \<open>
  The component's state: its React state variables and refs, and beside them what the
  platform and React hold for it. \<open>watchers\<close> is the platform's registry of position
  watches: the id of each active watch with the route steps its callback closed over.
  \<open>effectCleanup\<close> says whether the last run of the guidance effect returned a cleanup
  function. \<open>coordsChanged\<close> and \<open>stepsChanged\<close> record that a setter has replaced
  the value since the last commit; every call site passes a fresh object or array, so
  every call changes the dependency. The Leaflet map is present or not (\<open>mapRef\<close>); its
  viewport is not part of the state. A chat message is kept by what it says, not by its
  rendered text.
\<close>

datatype role = User | Assistant

datatype content =
    Literal string
  | LocationSet Coords
  | Nearby string "Place list"
  | NoNearby string

type_synonym ChatMessage = "role \<times> content"

record TourGuide =
  messages :: "ChatMessage list"
  coords :: "Coords option"
  loadingPOI :: bool
  places :: "Place list"
  poiCategory :: string
  mapRef :: bool
  routePolylineRef :: "(real \<times> real) list option"
  routeSteps :: "RouteStep list"
  watchIdRef :: "nat option"
  nextTurnMarkerRef :: "(real \<times> real) option"
  nextTurnText :: "string option"
  nextTurnDistance :: "int option"
  coordsChanged :: bool
  stepsChanged :: bool
  effectCleanup :: bool
  watchers :: "(nat \<times> RouteStep list) list"
  nextWatchId :: nat
  warnings :: nat

definition init :: TourGuide where
  "init =
     \<lparr>messages = [(Assistant, Literal (''Hi! I can use your location and camera to suggest nearby ''
                     @ ''spots and identify landmarks. Share your location to begin.''))],
      coords = None,
      loadingPOI = False,
      places = [],
      poiCategory = ''restaurant'',
      mapRef = False,
      routePolylineRef = None,
      routeSteps = [],
      watchIdRef = None,
      nextTurnMarkerRef = None,
      nextTurnText = None,
      nextTurnDistance = None,
      coordsChanged = False,
      stepsChanged = False,
      effectCleanup = False,
      watchers = [],
      nextWatchId = 0,
      warnings = 0\<rparr>"

definition say :: "string \<Rightarrow> TourGuide \<Rightarrow> TourGuide" where
  "say text s = s\<lparr>messages := messages s @ [(Assistant, Literal text)]\<rparr>"

definition setCoords :: "Coords \<Rightarrow> TourGuide \<Rightarrow> TourGuide" where
  "setCoords c s = s\<lparr>coords := Some c, coordsChanged := True\<rparr>"

definition setRouteSteps :: "RouteStep list \<Rightarrow> TourGuide \<Rightarrow> TourGuide" where
  "setRouteSteps steps' s = s\<lparr>routeSteps := steps', stepsChanged := True\<rparr>"

subsection \<open>The platform's position watches\<close>

definition watchPosition :: "RouteStep list \<Rightarrow> TourGuide \<Rightarrow> nat \<times> TourGuide" where
  "watchPosition steps' s =
     (nextWatchId s,
      s\<lparr>watchers := watchers s @ [(nextWatchId s, steps')], nextWatchId := Suc (nextWatchId s)\<rparr>)"

definition clearWatch :: "nat \<Rightarrow> TourGuide \<Rightarrow> TourGuide" where
  "clearWatch w s = s\<lparr>watchers := filter (\<lambda>e. fst e \<noteq> w) (watchers s)\<rparr>"

subsection \<open>clearRoute\<close>

definition clearRoute :: "TourGuide \<Rightarrow> TourGuide" where
  "clearRoute s =
     (let s1 = s\<lparr>routePolylineRef := None\<rparr>;
          s2 = setRouteSteps [] s1;
          s3 = s2\<lparr>nextTurnText := None, nextTurnDistance := None, nextTurnMarkerRef := None\<rparr>
      in case watchIdRef s3 of
           None \<Rightarrow> s3
         | Some w \<Rightarrow> (clearWatch w s3)\<lparr>watchIdRef := None\<rparr>)"

subsection \<open>routeTo\<close>

text \<open>
  The body of the \<open>try\<close> block: the state it leaves and the error it threw, if any. The
  answer of the routing service is an input, and so is \<open>fitBounds_ok\<close>: whether the
  map library's \<open>fitBounds\<close>, called once the new polyline is on the map and in the
  ref, returns normally (it throws on bounds that are not valid). The place only enters
  the request, which is not part of the state.
\<close>

definition routeTo_try ::
  "OSRMRouteResponse response \<Rightarrow> bool \<Rightarrow> TourGuide \<Rightarrow> error option \<times> TourGuide" where
  "routeTo_try res fitBounds_ok s =
     (case res of
        Rejected \<Rightarrow> (Some TypeError, s)
      | Response status body \<Rightarrow>
          if \<not> ok status then (Some (OSRMError status), s)
          else (case body of
                  None \<Rightarrow> (Some SyntaxError, s)
                | Some None \<Rightarrow> (Some NoRouteFound, s)
                | Some (Some []) \<Rightarrow> (Some NoRouteFound, s)
                | Some (Some (route # others)) \<Rightarrow>
                    let latlngs = map (\<lambda>(lon', lat'). (lat', lon')) (geometry route);
                        s1 = s\<lparr>routePolylineRef := Some latlngs\<rparr>
                    in if \<not> fitBounds_ok then (Some BoundsNotValid, s1)
                       else (None,
                             setRouteSteps
                               (case legs route of
                                  None \<Rightarrow> []
                                | Some [] \<Rightarrow> []
                                | Some (leg # legs') \<Rightarrow>
                                    (case steps leg of None \<Rightarrow> [] | Some st \<Rightarrow> st))
                               s1)))"

definition routeTo :: "Place \<Rightarrow> OSRMRouteResponse response \<Rightarrow> bool \<Rightarrow> TourGuide \<Rightarrow> TourGuide" where
  "routeTo place res fitBounds_ok s =
     (if coords s = None \<or> \<not> mapRef s then say ''Share your location to draw a route.'' s
      else (case routeTo_try res fitBounds_ok s of
              (None, s') \<Rightarrow> s'
            | (Some e, s') \<Rightarrow> say ''Could not draw route on the map.'' s'))"

subsection \<open>The guidance effect and the position callbacks\<close>

definition watch_success :: "RouteStep list \<Rightarrow> Coords \<Rightarrow> TourGuide \<Rightarrow> TourGuide" where
  "watch_success steps' c s =
     (let s1 = setCoords c s
      in case nearest steps' c of
           Some (bestIdx, bestDist) \<Rightarrow>
             let st = steps' ! bestIdx;
                 s2 = s1\<lparr>nextTurnDistance := Some (Math_round bestDist),
                         nextTurnText := Some (instruction st)\<rparr>
             in if mapRef s2
                then (case maneuver st of
                        None \<Rightarrow> s2
                      | Some m \<Rightarrow>
                          s2\<lparr>nextTurnMarkerRef := Some (snd (location m), fst (location m))\<rparr>)
                else s2
         | None \<Rightarrow> s1\<lparr>nextTurnText := None, nextTurnDistance := None\<rparr>)"

definition watch_error :: "TourGuide \<Rightarrow> TourGuide" where
  "watch_error s = s\<lparr>warnings := Suc (warnings s)\<rparr>"

definition guidance_cleanup :: "TourGuide \<Rightarrow> TourGuide" where
  "guidance_cleanup s =
     (case watchIdRef s of
        None \<Rightarrow> s
      | Some w \<Rightarrow> (clearWatch w s)\<lparr>watchIdRef := None\<rparr>)"

definition guidance_effect :: "TourGuide \<Rightarrow> TourGuide" where
  "guidance_effect s =
     (if coords s = None \<or> length (routeSteps s) = 0
      then (case watchIdRef s of
              None \<Rightarrow> s
            | Some w \<Rightarrow> (clearWatch w s)\<lparr>watchIdRef := None\<rparr>)\<lparr>effectCleanup := False\<rparr>
      else if watchIdRef s \<noteq> None then s\<lparr>effectCleanup := False\<rparr>
      else (case watchPosition (routeSteps s) s of
              (w, s') \<Rightarrow> s'\<lparr>watchIdRef := Some w, effectCleanup := True\<rparr>))"

text \<open>The map is created by the effect on \<open>[coords]\<close>; its container is always rendered.\<close>

definition map_effect :: "TourGuide \<Rightarrow> TourGuide" where
  "map_effect s = (if coords s = None then s else s\<lparr>mapRef := True\<rparr>)"

text \<open>
  What React does after a handler has returned: it re-renders, and for each effect whose
  dependencies changed it runs the cleanup the previous run returned and then the effect,
  in the order of declaration (guidance before map).
\<close>

definition commit :: "TourGuide \<Rightarrow> TourGuide" where
  "commit s =
     (let s1 = (if coordsChanged s \<or> stepsChanged s
                then guidance_effect (if effectCleanup s then guidance_cleanup s else s)
                else s);
          s2 = (if coordsChanged s then map_effect s1 else s1)
      in s2\<lparr>coordsChanged := False, stepsChanged := False\<rparr>)"

subsection \<open>loadPOIs and the location requests\<close>

definition loadPOIs :: "overpass_json response list \<Rightarrow> TourGuide \<Rightarrow> TourGuide" where
  "loadPOIs net s =
     (case coords s of
        None \<Rightarrow> say ''Please share your location first.'' s
      | Some c \<Rightarrow>
          let s1 = s\<lparr>loadingPOI := True\<rparr>;
              s2 = (case fst (fetchOverpassPlaces c (poiCategory s) net) of
                      Inr results \<Rightarrow>
                        let s' = s1\<lparr>places := results\<rparr>
                        in s'\<lparr>messages := messages s' @
                               [(Assistant,
                                 if take 5 results \<noteq> []
                                 then Nearby (poiCategory s) (take 5 results)
                                 else NoNearby (poiCategory s))]\<rparr>
                    | Inl e \<Rightarrow> say ''Could not load nearby places right now.'' s1)
          in s2\<lparr>loadingPOI := False\<rparr>)"

definition requestLocation :: "Coords \<Rightarrow> TourGuide \<Rightarrow> TourGuide" where
  "requestLocation c s =
     (let s1 = setCoords c s
      in s1\<lparr>messages := messages s1 @ [(Assistant, LocationSet c)]\<rparr>)"

subsection \<open>Events\<close>

text \<open>
  One step of the component: an event from the user, a service or the platform runs its
  handler, then React commits; handler and commit are one step. A position update or
  error goes to the callbacks of the watches registered when it arrives, each only if its
  watch is still registered when its turn comes. \<open>Preload\<close> is the location found on
  mount, \<open>RequestLocation\<close> the one found on request; an asynchronous handler is taken
  at the moment its answer arrives. The chat, the camera and the settings do not touch
  the route, the guidance state or the watch, and are left out.
\<close>

datatype event =
    Preload Coords
  | RequestLocation Coords
  | SetPoiCategory string
  | LoadPOIs "overpass_json response list"
  | RouteTo Place "OSRMRouteResponse response" bool
  | ClearRoute
  | PositionUpdate Coords
  | PositionError

fun deliver :: "(nat \<times> RouteStep list) list \<Rightarrow> Coords \<Rightarrow> TourGuide \<Rightarrow> TourGuide" where
  "deliver [] c s = s"
| "deliver (w # ws) c s =
     deliver ws c (if fst w \<in> fst ` set (watchers s)
                   then commit (watch_success (snd w) c s) else s)"

fun deliver_error :: "(nat \<times> RouteStep list) list \<Rightarrow> TourGuide \<Rightarrow> TourGuide" where
  "deliver_error [] s = s"
| "deliver_error (w # ws) s =
     deliver_error ws (if fst w \<in> fst ` set (watchers s) then commit (watch_error s) else s)"

fun fire :: "event \<Rightarrow> TourGuide \<Rightarrow> TourGuide" where
  "fire (Preload c) s = commit (setCoords c s)"
| "fire (RequestLocation c) s = commit (requestLocation c s)"
| "fire (SetPoiCategory cat) s = commit (s\<lparr>poiCategory := cat\<rparr>)"
| "fire (LoadPOIs net) s = commit (loadPOIs net s)"
| "fire (RouteTo place res fitBounds_ok) s = commit (routeTo place res fitBounds_ok s)"
| "fire ClearRoute s = commit (clearRoute s)"
| "fire (PositionUpdate c) s = deliver (watchers s) c s"
| "fire PositionError s = deliver_error (watchers s) s"

fun run :: "event list \<Rightarrow> TourGuide \<Rightarrow> TourGuide" where
  "run [] s = s"
| "run (e # es) s = run es (fire e s)"

text \<open>
  Between a handler and the commit the registry may still hold the watch that closed over
  the replaced steps: the registered ids agree with the component's ref, and a held watch
  has its cleanup.
\<close>

definition registered :: "TourGuide \<Rightarrow> bool" where
  "registered s =
     (map fst (watchers s) = (case watchIdRef s of None \<Rightarrow> [] | Some w \<Rightarrow> [w])
      \<and> (watchIdRef s \<noteq> None \<longrightarrow> effectCleanup s))"

text \<open>
  After a commit the platform's registry agrees with the component: the only registered
  watch is the one in \<open>watchIdRef\<close>, its callback closed over the current steps, it was
  started by an effect run that returned a cleanup, a watch is held exactly when there
  are coordinates and a non-empty step list, and no setter is waiting for a commit.
\<close>

definition coherent :: "TourGuide \<Rightarrow> bool" where
  "coherent s =
     (watchers s = map (\<lambda>w. (w, routeSteps s)) (case watchIdRef s of None \<Rightarrow> [] | Some w \<Rightarrow> [w])
      \<and> (watchIdRef s \<noteq> None \<longrightarrow> effectCleanup s)
      \<and> ((watchIdRef s \<noteq> None) = (coords s \<noteq> None \<and> routeSteps s \<noteq> []))
      \<and> \<not> coordsChanged s \<and> \<not> stepsChanged s)"

section \<open>Sample data\<close>

text \<open>
  A position on the equator, route steps around it, and the states the component reaches
  with them: the concrete inputs at which the theorems below are exercised.
\<close>

definition origin :: Coords where
  "origin = \<lparr>lat = 0, lon = 0\<rparr>"

definition step_east :: RouteStep where
  "step_east =
     \<lparr>name = ''Main St'', distance = 120, duration = 90,
      maneuver = Some \<lparr>mtype = Some ''depart'', modifier = None, location = (1, 0)\<rparr>\<rparr>"

definition step_turn :: RouteStep where
  "step_turn =
     \<lparr>name = ''Elm St'', distance = 80, duration = 60,
      maneuver = Some \<lparr>mtype = Some ''turn'', modifier = Some ''left'', location = (0, 0)\<rparr>\<rparr>"

definition step_arrive :: RouteStep where
  "step_arrive =
     \<lparr>name = [], distance = 0, duration = 0,
      maneuver = Some \<lparr>mtype = Some ''arrive'', modifier = None, location = (0, 0)\<rparr>\<rparr>"

definition step_plain :: RouteStep where
  "step_plain = \<lparr>name = ''Oak Ave'', distance = 10, duration = 5, maneuver = None\<rparr>"

definition cafe :: Place where
  "cafe =
     \<lparr>place_id = ''42'', place_name = ''Cafe'', category = ''cafe'',
      place_lat = 0, place_lon = 1, distanceMeters = None\<rparr>"

definition route_answer :: "RouteStep list \<Rightarrow> OSRMRouteResponse response" where
  "route_answer steps' =
     Response 200 (Some (Some [\<lparr>geometry = [(1, 0), (0, 0)], legs = Some [\<lparr>steps = Some steps'\<rparr>]\<rparr>]))"

definition guiding :: TourGuide where
  "guiding =
     run [Preload origin, RouteTo cafe (route_answer [step_east, step_turn, step_arrive]) True] init"

definition guiding_plain :: TourGuide where
  "guiding_plain = run [Preload origin, RouteTo cafe (route_answer [step_plain]) True] init"

definition centre :: Coords where
  "centre = \<lparr>lat = 1, lon = 1\<rparr>"

definition el_south :: OverpassElement where
  "el_south =
     \<lparr>el_id = 7, el_lat = Some (- 1), el_lon = Some 1, center = None,
      tags = Some \<lparr>tag_name = Some ''South'', amenity = Some ''restaurant'', tourism = None\<rparr>\<rparr>"

definition el_here :: OverpassElement where
  "el_here =
     \<lparr>el_id = 8, el_lat = None, el_lon = None,
      center = Some \<lparr>center_lat = Some 1, center_lon = Some 1\<rparr>,
      tags = Some \<lparr>tag_name = Some ''Here'', amenity = None, tourism = Some ''museum''\<rparr>\<rparr>"

definition el_nowhere :: OverpassElement where
  "el_nowhere =
     \<lparr>el_id = 9, el_lat = None, el_lon = None, center = None,
      tags = Some \<lparr>tag_name = Some ''Nowhere'', amenity = None, tourism = None\<rparr>\<rparr>"

definition el_also :: OverpassElement where
  "el_also = \<lparr>el_id = 10, el_lat = Some 1, el_lon = Some 1, center = None, tags = None\<rparr>"

definition overpass_answer :: "overpass_json response list" where
  "overpass_answer = [Response 200 (Some (Some [el_south, el_here, el_nowhere, el_also]))]"

definition nearby_expected :: "Place list" where
  "nearby_expected =
     [\<lparr>place_id = ''8'', place_name = ''Here'', category = ''museum'',
       place_lat = 1, place_lon = 1, distanceMeters = Some 0\<rparr>,
      \<lparr>place_id = ''10'', place_name = ''Unknown'', category = ''restaurant'',
       place_lat = 1, place_lon = 1, distanceMeters = Some 0\<rparr>,
      \<lparr>place_id = ''7'', place_name = ''South'', category = ''restaurant'',
       place_lat = - 1, place_lon = 1, distanceMeters = Some (Math_round (6371000 * pi / 90))\<rparr>]"

definition browsing :: TourGuide where
  "browsing = run [Preload centre, LoadPOIs overpass_answer] init"

definition failing_answer :: "overpass_json response list" where
  "failing_answer = Response 503 (Some (Some [el_here])) # overpass_answer"

definition located :: TourGuide where
  "located = run [Preload origin] init"

definition two_routes :: "OSRMRouteResponse response" where
  "two_routes =
     Response 200 (Some (Some
       [\<lparr>geometry = [(1, 0), (1 / 2, 1 / 4), (0, 0)],
         legs = Some [\<lparr>steps = Some [step_east, step_turn]\<rparr>, \<lparr>steps = Some [step_arrive]\<rparr>]\<rparr>,
        \<lparr>geometry = [(1, 0), (0, 0)], legs = Some [\<lparr>steps = Some [step_plain]\<rparr>]\<rparr>]))"

definition turning :: TourGuide where
  "turning =
     run [Preload origin, RouteTo cafe (route_answer [step_east, step_turn, step_arrive]) True,
          PositionUpdate origin] init"

definition rerouted :: TourGuide where
  "rerouted =
     run [Preload origin, RouteTo cafe (route_answer [step_east, step_turn, step_arrive]) True,
          PositionUpdate origin, RouteTo cafe (route_answer []) True] init"

section \<open>The distance function\<close>

text \<open>Polynomial bounds on sine and cosine, each from the one before by monotonicity.\<close>

lemma haversine_hav_c: "haversine a b = 2 * 6371000 * arcsin (min 1 (sqrt (hav_c a b)))"
  by (simp add: haversine_def hav_c_def Let_def)

lemma cos_ge_quad: "0 \<le> (x::real) \<Longrightarrow> 1 - x\<^sup>2 / 2 \<le> cos x"
proof -
  assume x: "0 \<le> x"
  let ?f = "\<lambda>t::real. cos t - 1 + t\<^sup>2 / 2"
  have "\<And>u. 0 \<le> u \<Longrightarrow> u \<le> x \<Longrightarrow> \<exists>y. (?f has_real_derivative y) (at u) \<and> 0 \<le> y"
  proof -
    fix u :: real assume u: "0 \<le> u" "u \<le> x"
    have "(?f has_real_derivative (u - sin u)) (at u)"
      by (auto intro!: derivative_eq_intros simp: field_simps)
    moreover have "0 \<le> u - sin u" using sin_x_le_x [OF u(1)] by simp
    ultimately show "\<exists>y. (?f has_real_derivative y) (at u) \<and> 0 \<le> y" by blast
  qed
  from DERIV_nonneg_imp_nondecreasing [OF x this] have "?f 0 \<le> ?f x" by blast
  then show ?thesis by simp
qed

lemma sin_ge_cubic: "0 \<le> (x::real) \<Longrightarrow> x - x ^ 3 / 6 \<le> sin x"
proof -
  assume x: "0 \<le> x"
  let ?f = "\<lambda>t::real. sin t - t + t ^ 3 / 6"
  have "\<And>u. 0 \<le> u \<Longrightarrow> u \<le> x \<Longrightarrow> \<exists>y. (?f has_real_derivative y) (at u) \<and> 0 \<le> y"
  proof -
    fix u :: real assume u: "0 \<le> u" "u \<le> x"
    have "(?f has_real_derivative (cos u - 1 + u\<^sup>2 / 2)) (at u)"
      by (auto intro!: derivative_eq_intros simp: field_simps power2_eq_square)
    moreover have "0 \<le> cos u - 1 + u\<^sup>2 / 2" using cos_ge_quad [OF u(1)] by simp
    ultimately show "\<exists>y. (?f has_real_derivative y) (at u) \<and> 0 \<le> y" by blast
  qed
  from DERIV_nonneg_imp_nondecreasing [OF x this] have "?f 0 \<le> ?f x" by blast
  then show ?thesis by simp
qed

lemma cos_le_quartic: "0 \<le> (x::real) \<Longrightarrow> cos x \<le> 1 - x\<^sup>2 / 2 + x ^ 4 / 24"
proof -
  assume x: "0 \<le> x"
  let ?f = "\<lambda>t::real. 1 - t\<^sup>2 / 2 + t ^ 4 / 24 - cos t"
  have "\<And>u. 0 \<le> u \<Longrightarrow> u \<le> x \<Longrightarrow> \<exists>y. (?f has_real_derivative y) (at u) \<and> 0 \<le> y"
  proof -
    fix u :: real assume u: "0 \<le> u" "u \<le> x"
    have "(?f has_real_derivative (sin u - u + u ^ 3 / 6)) (at u)"
      by (auto intro!: derivative_eq_intros simp: field_simps power2_eq_square power3_eq_cube)
    moreover have "0 \<le> sin u - u + u ^ 3 / 6" using sin_ge_cubic [OF u(1)] by simp
    ultimately show "\<exists>y. (?f has_real_derivative y) (at u) \<and> 0 \<le> y" by blast
  qed
  from DERIV_nonneg_imp_nondecreasing [OF x this] have "?f 0 \<le> ?f x" by blast
  then show ?thesis by simp
qed

lemma sin_le_quintic: "0 \<le> (x::real) \<Longrightarrow> sin x \<le> x - x ^ 3 / 6 + x ^ 5 / 120"
proof -
  assume x: "0 \<le> x"
  let ?f = "\<lambda>t::real. t - t ^ 3 / 6 + t ^ 5 / 120 - sin t"
  have "\<And>u. 0 \<le> u \<Longrightarrow> u \<le> x \<Longrightarrow> \<exists>y. (?f has_real_derivative y) (at u) \<and> 0 \<le> y"
  proof -
    fix u :: real assume u: "0 \<le> u" "u \<le> x"
    have "(?f has_real_derivative (1 - u\<^sup>2 / 2 + u ^ 4 / 24 - cos u)) (at u)"
      by (auto intro!: derivative_eq_intros simp: field_simps power2_eq_square)
    moreover have "0 \<le> 1 - u\<^sup>2 / 2 + u ^ 4 / 24 - cos u" using cos_le_quartic [OF u(1)] by simp
    ultimately show "\<exists>y. (?f has_real_derivative y) (at u) \<and> 0 \<le> y" by blast
  qed
  from DERIV_nonneg_imp_nondecreasing [OF x this] have "?f 0 \<le> ?f x" by blast
  then show ?thesis by simp
qed


lemma pi_ge_312: "312 / 100 \<le> pi"
proof (rule ccontr)
  assume neg: "\<not> 312 / 100 \<le> pi"
  define x :: real where "x = pi / 6"
  have hi: "x \<le> 52 / 100" using neg by (simp add: x_def)
  have x0: "0 \<le> x" by (simp add: x_def)
  have sinx: "sin x = 1 / 2" by (simp add: x_def sin_30)
  have lo: "1 / 2 \<le> x" using sin_x_le_x [OF x0] sinx by simp
  have p3: "(1 / 2) ^ 3 \<le> x ^ 3" by (rule power_mono [OF lo]) simp
  have p5: "x ^ 5 \<le> (52 / 100) ^ 5" by (rule power_mono [OF hi x0])
  have q3: "1 / 8 \<le> x ^ 3" using p3 by (simp add: power3_eq_cube)
  have q5: "x ^ 5 \<le> 4 / 100" using p5 by (simp add: eval_nat_numeral)
  have "1 / 2 \<le> x - x ^ 3 / 6 + x ^ 5 / 120" using sin_le_quintic [OF x0] sinx by simp
  with hi q3 q5 show False by linarith
qed

lemma pi_le_317: "pi \<le> 317 / 100"
proof -
  define x :: real where "x = pi / 6"
  have x0: "0 \<le> x" by (simp add: x_def)
  have x4: "x \<le> 2 / 3" using pi_less_4 by (simp add: x_def)
  have sinx: "sin x = 1 / 2" by (simp add: x_def sin_30)
  have half: "x - x ^ 3 / 6 \<le> 1 / 2" using sin_ge_cubic [OF x0] sinx by simp
  have fact: "x - x ^ 3 / 6 = x * (1 - x * x / 6)"
    by (simp add: power3_eq_cube algebra_simps)
  have sq1: "x * x \<le> (2 / 3) * (2 / 3)" by (rule mult_mono [OF x4 x4 _ x0]) simp
  then have "25 / 27 \<le> 1 - x * x / 6" by simp
  then have "x * (25 / 27) \<le> x * (1 - x * x / 6)" by (rule mult_left_mono [OF _ x0])
  with half fact have x54: "x \<le> 27 / 50" by simp
  have sq2: "x * x \<le> (27 / 50) * (27 / 50)" by (rule mult_mono [OF x54 x54 _ x0]) simp
  then have "9514 / 10000 \<le> 1 - x * x / 6" by simp
  then have "x * (9514 / 10000) \<le> x * (1 - x * x / 6)" by (rule mult_left_mono [OF _ x0])
  with half fact have "x * (9514 / 10000) \<le> 1 / 2" by simp
  then have "x \<le> 317 / 600" by simp
  then show ?thesis by (simp add: x_def)
qed

lemma hav_c_bounds: "0 \<le> hav_c a b \<and> hav_c a b \<le> 1"
proof -
  define x where "x = toRad (lat a)"
  define y where "y = toRad (lat b)"
  define t where "t = (sin (toRad (lon b - lon a) / 2))\<^sup>2"
  define u where "u = cos (y - x)"
  define v where "v = cos (x + y)"
  have dlat: "toRad (lat b - lat a) / 2 = (y - x) / 2"
    by (simp add: toRad_def x_def y_def algebra_simps diff_divide_distrib)
  have t01: "0 \<le> t" "t \<le> 1" by (simp_all add: t_def abs_square_le_1)
  have u1: "- 1 \<le> u" "u \<le> 1" and v1: "- 1 \<le> v" "v \<le> 1" by (simp_all add: u_def v_def)
  have "cos (2 * ((y - x) / 2)) = 1 - 2 * (sin ((y - x) / 2))\<^sup>2"
    by (rule cos_double_sin)
  moreover have "2 * ((y - x) / 2) = y - x" by simp
  ultimately have s1: "(sin ((y - x) / 2))\<^sup>2 = (1 - u) / 2"
    by (simp only: u_def) simp
  have cc: "cos x * cos y = (u + v) / 2"
    by (simp add: u_def v_def cos_add cos_diff)
  have ss: "sin ((y - x) / 2) * sin ((y - x) / 2) = (1 - u) / 2"
    using s1 by (simp only: power2_eq_square)
  have ww: "sin (toRad (lon b - lon a) / 2) * sin (toRad (lon b - lon a) / 2) = t"
    by (simp only: t_def power2_eq_square)
  have "hav_c a b = sin ((y - x) / 2) * sin ((y - x) / 2)
      + (cos x * cos y) * (sin (toRad (lon b - lon a) / 2) * sin (toRad (lon b - lon a) / 2))"
    unfolding hav_c_def dlat by (simp only: x_def y_def mult.assoc)
  then have c: "hav_c a b = (1 - u) / 2 + (u + v) / 2 * t"
    by (simp only: ss ww cc)
  have t1: "0 \<le> 1 - t" using t01 by simp
  have tu1: "(1 - t) * u \<le> (1 - t) * 1" by (rule mult_left_mono [OF u1(2) t1])
  have tu2: "(1 - t) * (- 1) \<le> (1 - t) * u" by (rule mult_left_mono [OF u1(1) t1])
  have tv1: "t * (- 1) \<le> t * v" by (rule mult_left_mono [OF v1(1) t01(1)])
  have tv2: "t * v \<le> t * 1" by (rule mult_left_mono [OF v1(2) t01(1)])
  have "2 * hav_c a b = 1 - (1 - t) * u + t * v" by (simp add: c field_simps)
  with tu1 tu2 tv1 tv2 show ?thesis by simp
qed

lemma haversine_sqrt: "haversine a b = 2 * 6371000 * arcsin (sqrt (hav_c a b))"
proof -
  have "sqrt (hav_c a b) \<le> 1" using hav_c_bounds [of a b] by simp
  then show ?thesis by (simp add: haversine_hav_c min_def)
qed

lemma haversine_nonneg: "0 \<le> haversine a b"
proof -
  have "sqrt (hav_c a b) \<in> {0..1}" using hav_c_bounds [of a b] by simp
  then have "0 \<le> arcsin (sqrt (hav_c a b))" by (rule arcsin_nonneg)
  then show ?thesis by (simp add: haversine_sqrt)
qed

lemma hav_c_self: "hav_c a a = 0"
  by (simp add: hav_c_def toRad_def)

lemma haversine_self: "haversine a a = 0"
  by (simp add: haversine_sqrt hav_c_self)

lemma hav_c_sym: "hav_c a b = hav_c b a"
proof -
  have m: "toRad (p - q) / 2 = - (toRad (q - p) / 2)" for p q
    by (simp add: toRad_def algebra_simps diff_divide_distrib)
  show ?thesis
    unfolding hav_c_def m [of "lat b" "lat a"] m [of "lon b" "lon a"]
    by (simp add: mult.commute)
qed

lemma haversine_sym: "haversine a b = haversine b a"
  by (simp add: haversine_sqrt hav_c_sym [of a b])

lemma haversine_equator_degree:
  "haversine \<lparr>lat = 0, lon = 0\<rparr> \<lparr>lat = 0, lon = 1\<rparr> = 6371000 * pi / 180"
proof -
  have c: "hav_c \<lparr>lat = 0, lon = 0\<rparr> \<lparr>lat = 0, lon = 1\<rparr> = (sin (pi / 360))\<^sup>2"
    by (simp add: hav_c_def toRad_def power2_eq_square)
  have pos: "0 \<le> sin (pi / 360)" by (rule sin_ge_zero) simp_all
  have "arcsin (sin (pi / 360)) = pi / 360" by (rule arcsin_sin) simp_all
  with pos show ?thesis by (simp add: haversine_sqrt c)
qed

text \<open>
  Claim C7. The distance function is the haversine formula on a sphere of radius
  6,371,000 m: for all coordinates \<open>a\<close> and \<open>b\<close> the distance is not negative, the
  distance from a point to itself is 0, and the distance is symmetric; one degree of
  longitude on the equator measures \<open>6371000 * pi / 180\<close> metres, which is within one
  percent of 111,195. Numbers are real numbers here, so the distance from a point to
  itself is exactly 0.
\<close>

theorem haversine_properties:
  "0 \<le> haversine a b \<and> haversine a a = 0 \<and> haversine a b = haversine b a
   \<and> haversine \<lparr>lat = 0, lon = 0\<rparr> \<lparr>lat = 0, lon = 1\<rparr> = 6371000 * pi / 180
   \<and> \<bar>haversine \<lparr>lat = 0, lon = 0\<rparr> \<lparr>lat = 0, lon = 1\<rparr> - 111195\<bar> \<le> 111195 / 100"
proof -
  have "\<bar>6371000 * pi / 180 - 111195\<bar> \<le> 111195 / 100"
    using pi_ge_312 pi_le_317 by (simp only: abs_le_iff) linarith
  then have near: "\<bar>haversine \<lparr>lat = 0, lon = 0\<rparr> \<lparr>lat = 0, lon = 1\<rparr> - 111195\<bar> \<le> 111195 / 100"
    by (simp only: haversine_equator_degree)
  from haversine_nonneg [of a b] haversine_self [of a] haversine_sym [of a b]
    haversine_equator_degree near
  show ?thesis by (intro conjI)
qed

section \<open>Selecting the nearest maneuver\<close>

text \<open>
  What the loop returns, for any starting index and any best-so-far: nothing exactly when
  there was no best and no remaining step has a maneuver; otherwise either the best it
  started with, which no remaining maneuver beats, or a remaining maneuver that is
  strictly nearer than every maneuver before it and than the starting best, and at least
  as near as every other.
\<close>

lemma nearest_from_spec:
  "nearest_from i best rest c = r \<Longrightarrow>
   (case r of
      None \<Rightarrow> best = None \<and> (\<forall>st\<in>set rest. maneuver st = None)
    | Some (j, d) \<Rightarrow>
        (best = Some (j, d)
          \<and> (\<forall>k<length rest. \<forall>m. maneuver (rest ! k) = Some m \<longrightarrow> d \<le> distanceToManeuver c (location m)))
      \<or> (\<exists>k<length rest. \<exists>m. j = i + k \<and> maneuver (rest ! k) = Some m
            \<and> d = distanceToManeuver c (location m)
            \<and> (\<forall>k'<k. \<forall>m'. maneuver (rest ! k') = Some m' \<longrightarrow> d < distanceToManeuver c (location m'))
            \<and> (\<forall>k'<length rest. \<forall>m'. maneuver (rest ! k') = Some m' \<longrightarrow> d \<le> distanceToManeuver c (location m'))
            \<and> (\<forall>bi bd. best = Some (bi, bd) \<longrightarrow> d < bd)))"
proof (induction rest arbitrary: i best r)
  case Nil
  then show ?case by (auto split: option.splits)
next
  case (Cons st rest)
  show ?case
  proof (cases "maneuver st")
    case None
    with Cons.prems have "nearest_from (Suc i) best rest c = r" by simp
    from Cons.IH [OF this] None show ?thesis
      apply (auto split: option.splits simp: All_less_Suc2 Ex_less_Suc2 less_Suc_eq_0_disj)
      done
  next
    case (Some m)
    let ?d0 = "distanceToManeuver c (location m)"
    have accept: ?thesis if "nearest_from (Suc i) (Some (i, ?d0)) rest c = r"
      and "\<And>bi bd. best = Some (bi, bd) \<Longrightarrow> ?d0 < bd"
      using Cons.IH [OF that(1)] Some that(2)
      by (cases r)
        (auto simp: All_less_Suc2 Ex_less_Suc2 less_Suc_eq_0_disj split: option.splits)
    have reject: ?thesis if "nearest_from (Suc i) best rest c = r"
      and "best = Some (bi, bd)" and "\<not> ?d0 < bd" for bi bd
      using Cons.IH [OF that(1)] Some that(2,3)
      by (cases r)
        (auto simp: All_less_Suc2 Ex_less_Suc2 less_Suc_eq_0_disj split: option.splits)
    show ?thesis
    proof (cases best)
      case None
      with Cons.prems Some show ?thesis by (intro accept) (simp_all add: Let_def)
    next
      case (Some p)
      obtain bi bd where p: "p = (bi, bd)" by (cases p)
      show ?thesis
      proof (cases "?d0 < bd")
        case True
        with Cons.prems \<open>maneuver st = Some m\<close> Some p show ?thesis
          by (intro accept) (simp_all add: Let_def)
      next
        case False
        with Cons.prems \<open>maneuver st = Some m\<close> Some p show ?thesis
          by (intro reject [of bi bd]) (simp_all add: Let_def)
      qed
    qed
  qed
qed

section \<open>The registry of position watches\<close>

lemma coherent_init: "coherent init"
  by (simp add: coherent_def init_def)

lemma coherent_registered: "coherent s \<Longrightarrow> registered s"
  by (auto simp: coherent_def registered_def split: option.splits)

lemma commit_idle: "\<not> coordsChanged s \<Longrightarrow> \<not> stepsChanged s \<Longrightarrow> commit s = s"
  by (simp add: commit_def)

lemma cleanup_clears:
  "registered s \<Longrightarrow>
   watchers (if effectCleanup s then guidance_cleanup s else s) = []
   \<and> watchIdRef (if effectCleanup s then guidance_cleanup s else s) = None"
  by (auto simp: registered_def guidance_cleanup_def clearWatch_def split: option.splits)

lemma cleanup_keeps:
  "coords (if effectCleanup s then guidance_cleanup s else s) = coords s
   \<and> routeSteps (if effectCleanup s then guidance_cleanup s else s) = routeSteps s"
  by (auto simp: guidance_cleanup_def clearWatch_def split: option.splits)

lemma effect_from_clean:
  "watchers s = [] \<Longrightarrow> watchIdRef s = None \<Longrightarrow>
   (let s' = guidance_effect s in
      watchers s' = map (\<lambda>w. (w, routeSteps s')) (case watchIdRef s' of None \<Rightarrow> [] | Some w \<Rightarrow> [w])
      \<and> (watchIdRef s' \<noteq> None \<longrightarrow> effectCleanup s')
      \<and> ((watchIdRef s' \<noteq> None) = (coords s' \<noteq> None \<and> routeSteps s' \<noteq> []))
      \<and> coords s' = coords s \<and> routeSteps s' = routeSteps s)"
  by (auto simp: guidance_effect_def watchPosition_def Let_def)

lemma commit_coherent:
  assumes "registered s" and "coordsChanged s \<or> stepsChanged s"
  shows "coherent (commit s)"
proof -
  let ?s0 = "if effectCleanup s then guidance_cleanup s else s"
  from cleanup_clears [OF assms(1)]
  have clean: "watchers ?s0 = []" "watchIdRef ?s0 = None" by blast+
  from effect_from_clean [OF clean] have eff:
    "watchers (guidance_effect ?s0) = map (\<lambda>w. (w, routeSteps (guidance_effect ?s0)))
        (case watchIdRef (guidance_effect ?s0) of None \<Rightarrow> [] | Some w \<Rightarrow> [w])"
    "watchIdRef (guidance_effect ?s0) \<noteq> None \<longrightarrow> effectCleanup (guidance_effect ?s0)"
    "(watchIdRef (guidance_effect ?s0) \<noteq> None)
       = (coords (guidance_effect ?s0) \<noteq> None \<and> routeSteps (guidance_effect ?s0) \<noteq> [])"
    by (simp_all add: Let_def)
  have "coherent (guidance_effect ?s0\<lparr>coordsChanged := False, stepsChanged := False\<rparr>)"
    using eff unfolding coherent_def by simp
  moreover have "coherent (map_effect (guidance_effect ?s0)\<lparr>coordsChanged := False, stepsChanged := False\<rparr>)"
    using eff unfolding coherent_def map_effect_def by simp
  ultimately show ?thesis using assms(2) by (auto simp: commit_def Let_def)
qed

lemma commit_fields:
  "nextTurnText (commit s) = nextTurnText s \<and> nextTurnDistance (commit s) = nextTurnDistance s
   \<and> nextTurnMarkerRef (commit s) = nextTurnMarkerRef s \<and> routeSteps (commit s) = routeSteps s
   \<and> coords (commit s) = coords s \<and> routePolylineRef (commit s) = routePolylineRef s
   \<and> places (commit s) = places s \<and> messages (commit s) = messages s
   \<and> warnings (commit s) = warnings s \<and> loadingPOI (commit s) = loadingPOI s
   \<and> poiCategory (commit s) = poiCategory s"
  by (simp add: commit_def guidance_effect_def guidance_cleanup_def map_effect_def
      clearWatch_def watchPosition_def Let_def split: option.splits)

lemma coherent_fields:
  "watchers s' = watchers s \<Longrightarrow> watchIdRef s' = watchIdRef s \<Longrightarrow> routeSteps s' = routeSteps s
   \<Longrightarrow> effectCleanup s' = effectCleanup s \<Longrightarrow> coords s' = coords s
   \<Longrightarrow> coordsChanged s' = coordsChanged s \<Longrightarrow> stepsChanged s' = stepsChanged s
   \<Longrightarrow> coherent s' = coherent s"
  by (simp add: coherent_def)

lemma registered_fields:
  "watchers s' = watchers s \<Longrightarrow> watchIdRef s' = watchIdRef s
   \<Longrightarrow> effectCleanup s' = effectCleanup s \<Longrightarrow> registered s' = registered s"
  by (simp add: registered_def)

lemma watch_success_pending:
  "registered s \<Longrightarrow> registered (watch_success steps' c s) \<and> coordsChanged (watch_success steps' c s)"
  by (auto simp: watch_success_def setCoords_def registered_def Let_def split: option.splits)

lemma clearRoute_pending:
  "coherent s \<Longrightarrow> registered (clearRoute s) \<and> stepsChanged (clearRoute s)"
  by (auto simp: clearRoute_def setRouteSteps_def clearWatch_def registered_def coherent_def
      Let_def split: option.splits)

lemma routeTo_outcome:
  "coherent s \<Longrightarrow>
   (registered (routeTo place res fb s) \<and> stepsChanged (routeTo place res fb s))
   \<or> (coherent (routeTo place res fb s) \<and> routeSteps (routeTo place res fb s) = routeSteps s
       \<and> watchIdRef (routeTo place res fb s) = watchIdRef s)"
  by (auto simp: routeTo_def routeTo_try_def say_def setRouteSteps_def registered_def
      coherent_def Let_def split: option.splits response.splits list.splits)

lemma loadPOIs_keeps:
  "coherent s \<Longrightarrow> coherent (loadPOIs net s) \<and> routeSteps (loadPOIs net s) = routeSteps s
     \<and> watchIdRef (loadPOIs net s) = watchIdRef s"
  by (auto simp: loadPOIs_def say_def coherent_def Let_def split: option.splits sum.splits)

lemma deliver_coherent:
  assumes "coherent s"
  shows "fire (PositionUpdate c) s =
     (if watchIdRef s = None then s else commit (watch_success (routeSteps s) c s))"
  using assms by (auto simp: coherent_def split: option.splits)

lemma deliver_error_coherent:
  assumes "coherent s"
  shows "fire PositionError s = (if watchIdRef s = None then s else watch_error s)"
proof (cases "watchIdRef s")
  case None
  with assms have "watchers s = []" by (simp add: coherent_def)
  with None show ?thesis by simp
next
  case (Some w)
  with assms have w: "watchers s = [(w, routeSteps s)]" by (simp add: coherent_def)
  have "commit (watch_error s) = watch_error s"
    using assms by (intro commit_idle) (simp_all add: watch_error_def coherent_def)
  with Some w show ?thesis by simp
qed

lemma coherent_idle: "coherent s \<Longrightarrow> commit s = s"
  by (simp add: commit_idle coherent_def)

lemma fire_coherent: "coherent s \<Longrightarrow> coherent (fire e s)"
proof (cases e)
  case (Preload c)
  assume "coherent s"
  then have "registered (setCoords c s)" "coordsChanged (setCoords c s)"
    by (auto simp: setCoords_def registered_def coherent_def split: option.splits)
  then show ?thesis using Preload by (simp add: commit_coherent)
next
  case (RequestLocation c)
  assume "coherent s"
  then have "registered (requestLocation c s)" "coordsChanged (requestLocation c s)"
    by (auto simp: requestLocation_def setCoords_def registered_def coherent_def Let_def
        split: option.splits)
  then show ?thesis using RequestLocation by (simp add: commit_coherent)
next
  case (SetPoiCategory cat)
  assume "coherent s"
  then have "coherent (s\<lparr>poiCategory := cat\<rparr>)" by (simp add: coherent_def)
  then show ?thesis using SetPoiCategory by (simp add: coherent_idle)
next
  case (LoadPOIs net)
  assume "coherent s"
  then have "coherent (loadPOIs net s)" by (simp add: loadPOIs_keeps)
  then show ?thesis using LoadPOIs by (simp add: coherent_idle)
next
  case (RouteTo place res fb)
  assume "coherent s"
  from routeTo_outcome [OF this, of place res fb] show ?thesis
    using RouteTo by (auto simp: commit_coherent coherent_idle)
next
  case ClearRoute
  assume "coherent s"
  from clearRoute_pending [OF this] show ?thesis using ClearRoute by (simp add: commit_coherent)
next
  case (PositionUpdate c)
  assume coh: "coherent s"
  from watch_success_pending [OF coherent_registered [OF coh]]
  have "coherent (commit (watch_success (routeSteps s) c s))" by (simp add: commit_coherent)
  then show ?thesis using PositionUpdate coh by (simp only: deliver_coherent [OF coh] if_split) simp
next
  case PositionError
  assume coh: "coherent s"
  have "coherent (watch_error s)" using coh by (simp add: watch_error_def coherent_def)
  then show ?thesis using PositionError coh by (simp only: deliver_error_coherent [OF coh]) simp
qed

lemma run_coherent: "coherent s \<Longrightarrow> coherent (run es s)"
  by (induction es arbitrary: s) (simp_all add: fire_coherent)

lemma reachable_coherent: "coherent (run es init)"
  by (rule run_coherent [OF coherent_init])

section \<open>Guidance on a position update\<close>

lemma nearest_None_iff: "nearest steps' c = None \<longleftrightarrow> (\<forall>st\<in>set steps'. maneuver st = None)"
proof
  assume "nearest steps' c = None"
  from nearest_from_spec [OF this [unfolded nearest_def]] show "\<forall>st\<in>set steps'. maneuver st = None"
    by simp
next
  assume none: "\<forall>st\<in>set steps'. maneuver st = None"
  show "nearest steps' c = None"
  proof (cases "nearest steps' c")
    case None then show ?thesis .
  next
    case (Some p)
    obtain j d where p: "p = (j, d)" by (cases p)
    from nearest_from_spec [OF Some [unfolded nearest_def p]]
    obtain k m where "k < length steps'" "maneuver (steps' ! k) = Some m" by auto
    moreover from this none have "maneuver (steps' ! k) = None" by simp
    ultimately show ?thesis by simp
  qed
qed

lemma nearest_Some:
  assumes "nearest steps' c = Some (i, d)"
  shows "i < length steps' \<and> (\<exists>m. maneuver (steps' ! i) = Some m
           \<and> d = distanceToManeuver c (location m))
         \<and> (\<forall>j<i. \<forall>m'. maneuver (steps' ! j) = Some m' \<longrightarrow> d < distanceToManeuver c (location m'))
         \<and> (\<forall>j<length steps'. \<forall>m'. maneuver (steps' ! j) = Some m' \<longrightarrow> d \<le> distanceToManeuver c (location m'))"
  using nearest_from_spec [OF assms [unfolded nearest_def]] by auto

lemma watch_success_text:
  "nextTurnText (watch_success steps' c s) =
     (case nearest steps' c of None \<Rightarrow> None | Some (i, d) \<Rightarrow> Some (instruction (steps' ! i)))
   \<and> nextTurnDistance (watch_success steps' c s) =
     (case nearest steps' c of None \<Rightarrow> None | Some (i, d) \<Rightarrow> Some (Math_round d))
   \<and> coords (watch_success steps' c s) = Some c"
  by (simp add: watch_success_def setCoords_def Let_def split: option.splits)

lemma instruction_text:
  "maneuver st = Some m \<Longrightarrow>
   instruction st =
     (case mtype m of None \<Rightarrow> ''Proceed'' | Some t \<Rightarrow> if t = [] then ''Proceed'' else t)
     @ (case modifier m of None \<Rightarrow> [] | Some x \<Rightarrow> if x = [] then [] else '' '' @ x)
     @ (if name st = [] then [] else '' on '' @ name st)"
  by (simp add: instruction_def str_or_def Let_def split: option.splits)

lemma position_update_guiding:
  assumes "coherent s" and "watchIdRef s \<noteq> None"
  shows "nextTurnText (fire (PositionUpdate c) s) = nextTurnText (watch_success (routeSteps s) c s)
     \<and> nextTurnDistance (fire (PositionUpdate c) s) = nextTurnDistance (watch_success (routeSteps s) c s)
     \<and> coords (fire (PositionUpdate c) s) = Some c"
  using assms(2)
  by (simp only: deliver_coherent [OF assms(1)] if_False commit_fields watch_success_text)

lemmas machine_defs =
  commit_def setCoords_def setRouteSteps_def guidance_effect_def guidance_cleanup_def
  map_effect_def watchPosition_def clearWatch_def routeTo_def routeTo_try_def say_def ok_def
  clearRoute_def requestLocation_def watch_error_def

lemma guiding_state:
  "watchIdRef guiding = Some 0 \<and> routeSteps guiding = [step_east, step_turn, step_arrive]
   \<and> watchers guiding = [(0, [step_east, step_turn, step_arrive])] \<and> coords guiding = Some origin
   \<and> nextTurnText guiding = None \<and> nextTurnDistance guiding = None \<and> mapRef guiding"
  by (simp add: guiding_def route_answer_def init_def machine_defs Let_def)

lemma guiding_plain_state:
  "watchIdRef guiding_plain = Some 0 \<and> routeSteps guiding_plain = [step_plain]
   \<and> watchers guiding_plain = [(0, [step_plain])] \<and> coords guiding_plain = Some origin"
  by (simp add: guiding_plain_def route_answer_def init_def machine_defs Let_def)

lemma sample_nearest: "nearest [step_east, step_turn, step_arrive] origin = Some (1, 0)"
  by (simp add: nearest_def step_east_def step_turn_def step_arrive_def origin_def
      distanceToManeuver_def Let_def haversine_self haversine_equator_degree)

text \<open>
  Claim C1. A position update delivered while guidance is active (a watch is held), for
  a route with at least one maneuver-bearing step: there is a step with a maneuver whose
  haversine distance from the current position, measured to the maneuver's location read
  as (longitude, latitude) and put in (lat, lon) order, is minimal among all
  maneuver-bearing steps; the reported distance is that distance rounded; and the text is
  the maneuver type, or Proceed when the type is absent or empty, then a space and the
  modifier when the modifier is present and not empty, then \<open>on\<close> and the street name
  when the name is not empty.
\<close>

theorem guidance_on_position_update:
  assumes "coherent s" and "watchIdRef s \<noteq> None"
    and "\<exists>st\<in>set (routeSteps s). maneuver st \<noteq> None"
  shows "\<exists>i m. i < length (routeSteps s) \<and> maneuver (routeSteps s ! i) = Some m
     \<and> (\<forall>j<length (routeSteps s). \<forall>m'. maneuver (routeSteps s ! j) = Some m' \<longrightarrow>
           haversine c \<lparr>lat = snd (location m), lon = fst (location m)\<rparr>
           \<le> haversine c \<lparr>lat = snd (location m'), lon = fst (location m')\<rparr>)
     \<and> nextTurnDistance (fire (PositionUpdate c) s)
         = Some (Math_round (haversine c \<lparr>lat = snd (location m), lon = fst (location m)\<rparr>))
     \<and> nextTurnText (fire (PositionUpdate c) s)
         = Some ((case mtype m of None \<Rightarrow> ''Proceed'' | Some t \<Rightarrow> if t = [] then ''Proceed'' else t)
                 @ (case modifier m of None \<Rightarrow> [] | Some x \<Rightarrow> if x = [] then [] else '' '' @ x)
                 @ (if name (routeSteps s ! i) = [] then [] else '' on '' @ name (routeSteps s ! i)))"
proof -
  from assms(3) have "nearest (routeSteps s) c \<noteq> None" by (simp add: nearest_None_iff)
  then obtain i d where near: "nearest (routeSteps s) c = Some (i, d)" by auto
  from nearest_Some [OF near] obtain m where
    i: "i < length (routeSteps s)" and m: "maneuver (routeSteps s ! i) = Some m"
    and d: "d = distanceToManeuver c (location m)"
    and least: "\<forall>j<length (routeSteps s). \<forall>m'. maneuver (routeSteps s ! j) = Some m'
        \<longrightarrow> d \<le> distanceToManeuver c (location m')"
    by blast
  have dm: "distanceToManeuver c loc = haversine c \<lparr>lat = snd loc, lon = fst loc\<rparr>" for loc
    by (simp add: distanceToManeuver_def Let_def)
  from position_update_guiding [OF assms(1,2), of c] near
  have "nextTurnDistance (fire (PositionUpdate c) s) = Some (Math_round d)"
    and "nextTurnText (fire (PositionUpdate c) s) = Some (instruction (routeSteps s ! i))"
    by (simp_all add: watch_success_text)
  with i m d least show ?thesis
    unfolding dm instruction_text [OF m] by blast
qed

theorem guidance_on_position_update_witness:
  "coherent guiding \<and> watchIdRef guiding \<noteq> None
   \<and> (\<exists>st\<in>set (routeSteps guiding). maneuver st \<noteq> None)
   \<and> nextTurnDistance (fire (PositionUpdate origin) guiding) = Some 0
   \<and> nextTurnText (fire (PositionUpdate origin) guiding) = Some ''turn left on Elm St''"
proof -
  have h1: "coherent guiding" unfolding guiding_def by (rule reachable_coherent)
  have h2: "watchIdRef guiding \<noteq> None" by (simp add: guiding_state)
  have h3: "\<exists>st\<in>set (routeSteps guiding). maneuver st \<noteq> None"
    by (simp add: guiding_state step_turn_def)
  from guidance_on_position_update [OF h1 h2 h3, of origin] obtain i :: nat and m :: Maneuver where
    least: "\<forall>j<length (routeSteps guiding). \<forall>m'. maneuver (routeSteps guiding ! j) = Some m' \<longrightarrow>
           haversine origin \<lparr>lat = snd (location m), lon = fst (location m)\<rparr>
           \<le> haversine origin \<lparr>lat = snd (location m'), lon = fst (location m')\<rparr>"
    and dist: "nextTurnDistance (fire (PositionUpdate origin) guiding)
         = Some (Math_round (haversine origin \<lparr>lat = snd (location m), lon = fst (location m)\<rparr>))"
    by blast
  from least have "haversine origin \<lparr>lat = snd (location m), lon = fst (location m)\<rparr>
      \<le> haversine origin \<lparr>lat = 0, lon = 0\<rparr>"
    by (simp add: guiding_state step_turn_def All_less_Suc2)
  then have "haversine origin \<lparr>lat = snd (location m), lon = fst (location m)\<rparr> = 0"
    using haversine_nonneg [of origin "\<lparr>lat = snd (location m), lon = fst (location m)\<rparr>"]
    by (simp add: origin_def haversine_self)
  with dist have d: "nextTurnDistance (fire (PositionUpdate origin) guiding) = Some 0"
    by (simp add: Math_round_def)
  have "nextTurnText (fire (PositionUpdate origin) guiding) = Some (instruction step_turn)"
    using position_update_guiding [OF h1 h2, of origin]
    by (simp add: watch_success_text guiding_state sample_nearest)
  moreover have "instruction step_turn = ''turn left on Elm St''"
    by (simp add: instruction_def str_or_def step_turn_def)
  ultimately have "nextTurnText (fire (PositionUpdate origin) guiding) = Some ''turn left on Elm St''"
    by simp
  with h1 h2 h3 d show ?thesis by blast
qed

text \<open>
  Claim C10. When several maneuver-bearing steps are at the minimal distance from the
  current position, the selected step is the one with the lowest index: the selected
  step has a maneuver, its distance is at most that of every maneuver-bearing step, and
  every maneuver-bearing step at the same distance has an index at least as large. The
  selection is a function of the step list and the coordinate alone: the text and the
  distance that the callback sets do not depend on the state it starts from.
\<close>

theorem nearest_tie_lowest_index:
  assumes "nearest steps' c = Some (i, d)"
  shows "i < length steps'
     \<and> (\<exists>m. maneuver (steps' ! i) = Some m \<and> d = distanceToManeuver c (location m))
     \<and> (\<forall>j<length steps'. \<forall>m'. maneuver (steps' ! j) = Some m'
           \<longrightarrow> d \<le> distanceToManeuver c (location m'))
     \<and> (\<forall>j<length steps'. \<forall>m'. maneuver (steps' ! j) = Some m'
           \<and> distanceToManeuver c (location m') = d \<longrightarrow> i \<le> j)
     \<and> nextTurnText (watch_success steps' c s) = nextTurnText (watch_success steps' c s')
     \<and> nextTurnDistance (watch_success steps' c s) = nextTurnDistance (watch_success steps' c s')"
proof -
  note n = nearest_Some [OF assms]
  have low: "i \<le> j" if "j < length steps'" "maneuver (steps' ! j) = Some m'"
    "distanceToManeuver c (location m') = d" for j m'
  proof (rule ccontr)
    assume "\<not> i \<le> j"
    then have "j < i" by simp
    with n that(2) have "d < distanceToManeuver c (location m')" by blast
    with that(3) show False by simp
  qed
  from n low show ?thesis by (simp add: watch_success_text)
qed

theorem nearest_tie_lowest_index_witness:
  "nearest [step_east, step_turn, step_arrive] origin = Some (1, 0)
   \<and> [step_east, step_turn, step_arrive] ! 2 = step_arrive
   \<and> maneuver step_arrive = Some \<lparr>mtype = Some ''arrive'', modifier = None, location = (0, 0)\<rparr>
   \<and> distanceToManeuver origin (0, 0) = 0
   \<and> \<not> (\<exists>j<length [step_east, step_turn, step_arrive]. \<exists>m'.
         maneuver ([step_east, step_turn, step_arrive] ! j) = Some m'
         \<and> distanceToManeuver origin (location m') = 0 \<and> j < 1)"
proof -
  have h: "nearest [step_east, step_turn, step_arrive] origin = Some (1, 0)"
    by (rule sample_nearest)
  have z: "distanceToManeuver origin (0, 0) = 0"
    by (simp add: distanceToManeuver_def origin_def haversine_self)
  have a: "maneuver step_arrive = Some \<lparr>mtype = Some ''arrive'', modifier = None, location = (0, 0)\<rparr>"
    by (simp add: step_arrive_def)
  from nearest_tie_lowest_index [OF h, of init init]
  have "\<forall>j<length [step_east, step_turn, step_arrive]. \<forall>m'.
      maneuver ([step_east, step_turn, step_arrive] ! j) = Some m'
      \<and> distanceToManeuver origin (location m') = 0 \<longrightarrow> 1 \<le> j"
    by blast
  then have "\<not> (\<exists>j<length [step_east, step_turn, step_arrive]. \<exists>m'.
      maneuver ([step_east, step_turn, step_arrive] ! j) = Some m'
      \<and> distanceToManeuver origin (location m') = 0 \<and> j < 1)"
    by fastforce
  with h z a show ?thesis by simp
qed

section \<open>Nearby places\<close>

lemma fetch_success:
  assumes "fetchOverpassPlaces ctr cat net = (Inr ps, net')"
  shows "\<exists>status json. net = Response status (Some json) # net' \<and> ok status
     \<and> ps = sort_places (raw_places ctr cat (case json of Some els \<Rightarrow> els | None \<Rightarrow> []))"
proof (cases net)
  case Nil
  with assms show ?thesis by (simp add: fetchOverpassPlaces_def)
next
  case (Cons res rest)
  with assms show ?thesis
    by (cases res) (auto simp: fetchOverpassPlaces_def Let_def split: if_splits option.splits)
qed

lemma overpass_place_distance:
  "distanceMeters (overpass_place ctr cat el) =
     (if place_lat (overpass_place ctr cat el) \<noteq> 0 \<and> place_lon (overpass_place ctr cat el) \<noteq> 0
      then Some (Math_round (haversine ctr
             \<lparr>lat = place_lat (overpass_place ctr cat el),
              lon = place_lon (overpass_place ctr cat el)\<rparr>))
      else None)"
  by (simp add: overpass_place_def Let_def)

lemma raw_places_member:
  "p \<in> set (raw_places ctr cat els) \<Longrightarrow>
   place_lat p \<noteq> 0 \<and> place_lon p \<noteq> 0
   \<and> distanceMeters p = Some (Math_round (haversine ctr \<lparr>lat = place_lat p, lon = place_lon p\<rparr>))"
  by (auto simp: raw_places_def overpass_place_distance)

lemma raw_places_by_distance:
  "filter (\<lambda>p. distanceMeters p = Some k) (raw_places ctr cat els)
   = filter (\<lambda>p. distanceMeters p = Some k) (map (overpass_place ctr cat) els)"
proof -
  have "distanceMeters p = Some k \<and> place_lat p \<noteq> 0 \<and> place_lon p \<noteq> 0 \<longleftrightarrow> distanceMeters p = Some k"
    if "p \<in> set (map (overpass_place ctr cat) els)" for p
    using that by (auto simp: overpass_place_distance split: if_splits)
  then show ?thesis
    unfolding raw_places_def filter_filter by (intro filter_cong) auto
qed

lemma sort_key_of_eq: "(sort_key_of p = k \<and> distanceMeters p \<noteq> None) = (distanceMeters p = Some k)"
  by (auto simp: sort_key_of_def)

lemma raw_places_key:
  "p \<in> set (raw_places ctr cat els) \<Longrightarrow> (distanceMeters p = Some k) = (sort_key_of p = k)"
  by (auto simp: sort_key_of_def dest: raw_places_member)

lemma sort_places_stable:
  "filter (\<lambda>p. distanceMeters p = Some k) (sort_places (raw_places ctr cat els))
   = filter (\<lambda>p. distanceMeters p = Some k) (map (overpass_place ctr cat) els)"
proof -
  have "filter (\<lambda>p. distanceMeters p = Some k) (sort_places (raw_places ctr cat els))
      = filter (\<lambda>p. sort_key_of p = k) (sort_places (raw_places ctr cat els))"
    by (rule filter_cong) (simp_all add: sort_places_def raw_places_key)
  also have "\<dots> = filter (\<lambda>p. sort_key_of p = k) (raw_places ctr cat els)"
    by (simp add: sort_places_def sort_key_stable)
  also have "\<dots> = filter (\<lambda>p. distanceMeters p = Some k) (raw_places ctr cat els)"
    by (rule filter_cong) (simp_all add: raw_places_key)
  finally show ?thesis by (simp add: raw_places_by_distance)
qed

lemma sort_places_ascending:
  assumes "i \<le> j" and "j < length (sort_places (raw_places ctr cat els))"
  shows "\<exists>di dj. distanceMeters (sort_places (raw_places ctr cat els) ! i) = Some di
     \<and> distanceMeters (sort_places (raw_places ctr cat els) ! j) = Some dj \<and> di \<le> dj"
proof -
  let ?ps = "sort_places (raw_places ctr cat els)"
  have srt: "sorted (map sort_key_of ?ps)" by (simp add: sort_places_def)
  have mem: "?ps ! n \<in> set (raw_places ctr cat els)" if "n < length ?ps" for n
    using nth_mem [OF that] by (simp add: sort_places_def)
  have key: "distanceMeters (?ps ! n) = Some (sort_key_of (?ps ! n))" if "n < length ?ps" for n
    using raw_places_key [OF mem [OF that]] by simp
  from assms have "map sort_key_of ?ps ! i \<le> map sort_key_of ?ps ! j"
    by (intro sorted_nth_mono [OF srt]) simp_all
  with assms have "sort_key_of (?ps ! i) \<le> sort_key_of (?ps ! j)" by simp
  with key [of i] key [of j] assms show ?thesis by simp
qed

lemma haversine_south: "haversine centre \<lparr>lat = - 1, lon = 1\<rparr> = 6371000 * pi / 90"
proof -
  have c: "hav_c centre \<lparr>lat = - 1, lon = 1\<rparr> = (sin (pi / 180))\<^sup>2"
    by (simp add: hav_c_def toRad_def centre_def power2_eq_square)
  have pos: "0 \<le> sin (pi / 180)" by (rule sin_ge_zero) simp_all
  have "arcsin (sin (pi / 180)) = pi / 180" by (rule arcsin_sin) simp_all
  with pos show ?thesis by (simp add: haversine_sqrt c)
qed

lemma round_south: "0 < Math_round (6371000 * pi / 90)"
proof -
  have "(1::real) \<le> 6371000 * pi / 90 + 1 / 2" using pi_ge_312 by simp
  then have "1 \<le> \<lfloor>6371000 * pi / 90 + 1 / 2\<rfloor>" by (simp add: le_floor_iff)
  then show ?thesis by (simp add: Math_round_def)
qed

lemma sample_places:
  "raw_places centre ''restaurant'' [el_south, el_here, el_nowhere, el_also] =
     [\<lparr>place_id = ''7'', place_name = ''South'', category = ''restaurant'',
       place_lat = - 1, place_lon = 1, distanceMeters = Some (Math_round (6371000 * pi / 90))\<rparr>,
      \<lparr>place_id = ''8'', place_name = ''Here'', category = ''museum'',
       place_lat = 1, place_lon = 1, distanceMeters = Some 0\<rparr>,
      \<lparr>place_id = ''10'', place_name = ''Unknown'', category = ''restaurant'',
       place_lat = 1, place_lon = 1, distanceMeters = Some 0\<rparr>]"
proof -
  have r0: "Math_round 0 = 0" by (simp add: Math_round_def)
  have h: "haversine centre \<lparr>lat = 1, lon = 1\<rparr> = 0" by (simp add: centre_def haversine_self)
  have ids: "String 7 = ''7''" "String 8 = ''8''" "String 10 = ''10''"
    by code_simp+
  show ?thesis
    by (simp add: raw_places_def overpass_place_def el_south_def el_here_def el_nowhere_def
        el_also_def str_or_def Let_def haversine_south h r0 ids)
qed

lemma sample_sorted:
  "sort_places (raw_places centre ''restaurant'' [el_south, el_here, el_nowhere, el_also])
   = nearby_expected"
  using round_south by (simp add: sample_places sort_places_def sort_key_of_def nearby_expected_def)

lemma sample_fetch:
  "fetchOverpassPlaces centre ''restaurant'' overpass_answer = (Inr nearby_expected, [])"
  by (simp add: fetchOverpassPlaces_def overpass_answer_def ok_def sample_sorted)

lemma fetch_failure:
  assumes "\<not> ok status \<or> body = None"
  shows "fetchOverpassPlaces ctr cat (Response status body # rest)
     = (Inl (if \<not> ok status then OverpassError status else SyntaxError), rest)"
  using assms by (auto simp: fetchOverpassPlaces_def)

lemma loadPOIs_success:
  assumes "coords s = Some c" and "fetchOverpassPlaces c (poiCategory s) net = (Inr results, net')"
  shows "places (loadPOIs net s) = results \<and> coords (loadPOIs net s) = Some c
     \<and> poiCategory (loadPOIs net s) = poiCategory s \<and> loadingPOI (loadPOIs net s) = False
     \<and> messages (loadPOIs net s) = messages s @
          [(Assistant, if take 5 results \<noteq> [] then Nearby (poiCategory s) (take 5 results)
                       else NoNearby (poiCategory s))]"
  using assms by (simp add: loadPOIs_def Let_def)

lemma browsing_state:
  "coords browsing = Some centre \<and> places browsing = nearby_expected
   \<and> poiCategory browsing = ''restaurant'' \<and> loadingPOI browsing = False
   \<and> messages browsing = messages init @ [(Assistant, Nearby ''restaurant'' nearby_expected)]"
proof -
  define s1 where "s1 = fire (Preload centre) init"
  have t: "take 5 nearby_expected = nearby_expected" "nearby_expected \<noteq> []"
    by (simp_all add: nearby_expected_def)
  have p: "coords s1 = Some centre" "poiCategory s1 = ''restaurant''" "messages s1 = messages init"
    by (simp_all add: s1_def commit_fields setCoords_def init_def)
  have f: "fetchOverpassPlaces centre (poiCategory s1) overpass_answer = (Inr nearby_expected, [])"
    by (simp add: p sample_fetch)
  have b: "browsing = commit (loadPOIs overpass_answer s1)"
    by (simp add: browsing_def s1_def)
  from loadPOIs_success [OF p(1) f] show ?thesis
    by (simp add: b commit_fields p t)
qed

text \<open>
  Claim C3. Every list that fetchOverpassPlaces returns is in ascending order of
  distanceMeters, with places of equal distance in the order of the service's answer
  (for each distance, the places at that distance are those of the answer, in its order);
  every place in it has non-zero latitude and longitude and a distanceMeters equal to the
  rounded haversine distance from the query centre; and the list holds exactly the places
  of the raw elements whose resolved coordinates are both non-zero, so an element without
  a resolvable non-zero coordinate is left out.
\<close>

theorem findNearby_result_invariant:
  assumes "fetchOverpassPlaces ctr cat net = (Inr ps, net')"
  shows "\<exists>status json els. net = Response status (Some json) # net' \<and> ok status
     \<and> els = (case json of Some e \<Rightarrow> e | None \<Rightarrow> [])
     \<and> (\<forall>i j. i \<le> j \<and> j < length ps \<longrightarrow>
           (\<exists>di dj. distanceMeters (ps ! i) = Some di \<and> distanceMeters (ps ! j) = Some dj
              \<and> di \<le> dj))
     \<and> (\<forall>k. filter (\<lambda>p. distanceMeters p = Some k) ps
             = filter (\<lambda>p. distanceMeters p = Some k) (map (overpass_place ctr cat) els))
     \<and> (\<forall>p\<in>set ps. place_lat p \<noteq> 0 \<and> place_lon p \<noteq> 0
           \<and> distanceMeters p
               = Some (Math_round (haversine ctr \<lparr>lat = place_lat p, lon = place_lon p\<rparr>)))
     \<and> set ps = {p \<in> set (map (overpass_place ctr cat) els). place_lat p \<noteq> 0 \<and> place_lon p \<noteq> 0}
     \<and> length ps = length (filter (\<lambda>el. place_lat (overpass_place ctr cat el) \<noteq> 0
                                       \<and> place_lon (overpass_place ctr cat el) \<noteq> 0) els)"
proof -
  from fetch_success [OF assms] obtain status json where
    net: "net = Response status (Some json) # net'" and ok: "ok status"
    and ps: "ps = sort_places (raw_places ctr cat (case json of Some els \<Rightarrow> els | None \<Rightarrow> []))"
    by blast
  define els where "els = (case json of Some e \<Rightarrow> e | None \<Rightarrow> [])"
  have ps': "ps = sort_places (raw_places ctr cat els)" by (simp add: ps els_def)
  have asc: "\<forall>i j. i \<le> j \<and> j < length ps \<longrightarrow>
      (\<exists>di dj. distanceMeters (ps ! i) = Some di \<and> distanceMeters (ps ! j) = Some dj \<and> di \<le> dj)"
    unfolding ps' using sort_places_ascending by blast
  have stab: "\<forall>k. filter (\<lambda>p. distanceMeters p = Some k) ps
      = filter (\<lambda>p. distanceMeters p = Some k) (map (overpass_place ctr cat) els)"
    unfolding ps' by (simp add: sort_places_stable)
  have setps: "set ps = set (raw_places ctr cat els)" by (simp add: ps' sort_places_def)
  have mem: "\<forall>p\<in>set ps. place_lat p \<noteq> 0 \<and> place_lon p \<noteq> 0
      \<and> distanceMeters p = Some (Math_round (haversine ctr \<lparr>lat = place_lat p, lon = place_lon p\<rparr>))"
    unfolding setps using raw_places_member by blast
  have st: "set ps = {p \<in> set (map (overpass_place ctr cat) els). place_lat p \<noteq> 0 \<and> place_lon p \<noteq> 0}"
    unfolding setps by (auto simp: raw_places_def)
  have len: "length ps = length (filter (\<lambda>el. place_lat (overpass_place ctr cat el) \<noteq> 0
      \<and> place_lon (overpass_place ctr cat el) \<noteq> 0) els)"
    by (simp add: ps' sort_places_def raw_places_def filter_map comp_def)
  from net ok els_def asc stab mem st len show ?thesis by blast
qed

theorem findNearby_result_invariant_witness:
  "fetchOverpassPlaces centre ''restaurant'' overpass_answer = (Inr nearby_expected, [])
   \<and> map place_name nearby_expected = [''Here'', ''Unknown'', ''South'']
   \<and> length nearby_expected = 3
   \<and> filter (\<lambda>p. distanceMeters p = Some 0)
        (map (overpass_place centre ''restaurant'') [el_south, el_here, el_nowhere, el_also])
      = take 2 nearby_expected"
proof -
  have h: "fetchOverpassPlaces centre ''restaurant'' overpass_answer = (Inr nearby_expected, [])"
    by (rule sample_fetch)
  from findNearby_result_invariant [OF h] obtain status json els where
    net: "overpass_answer = [Response status (Some json)]"
    and els: "els = (case json of Some e \<Rightarrow> e | None \<Rightarrow> [])"
    and stab: "\<forall>k. filter (\<lambda>p. distanceMeters p = Some k) nearby_expected
             = filter (\<lambda>p. distanceMeters p = Some k) (map (overpass_place centre ''restaurant'') els)"
    by blast
  from net els have e: "els = [el_south, el_here, el_nowhere, el_also]"
    by (auto simp: overpass_answer_def)
  from round_south have "filter (\<lambda>p. distanceMeters p = Some 0) nearby_expected = take 2 nearby_expected"
    by (simp add: nearby_expected_def)
  with stab e have "filter (\<lambda>p. distanceMeters p = Some 0)
        (map (overpass_place centre ''restaurant'') [el_south, el_here, el_nowhere, el_also])
      = take 2 nearby_expected" by simp
  moreover have "map place_name nearby_expected = [''Here'', ''Unknown'', ''South'']"
    "length nearby_expected = 3" by (simp_all add: nearby_expected_def)
  ultimately show ?thesis using h by simp
qed

text \<open>
  Claim C5. When the answer has a non-success status or a body that is not JSON,
  fetchOverpassPlaces returns one error and no places, and it has made exactly one
  request (the rest of the service's answers are untouched, so there was no retry). The
  caller loadPOIs then leaves the places as they were and only appends the fallback
  message (and clears the loading flag).
\<close>

theorem findNearby_failure_keeps_places:
  assumes "net = Response status body # rest" and "\<not> ok status \<or> body = None"
  shows "fetchOverpassPlaces ctr cat net
       = (Inl (if \<not> ok status then OverpassError status else SyntaxError), rest)
     \<and> (coords s \<noteq> None \<longrightarrow>
          loadPOIs net s = (say ''Could not load nearby places right now.'' s)\<lparr>loadingPOI := False\<rparr>
          \<and> places (loadPOIs net s) = places s
          \<and> messages (loadPOIs net s)
              = messages s @ [(Assistant, Literal ''Could not load nearby places right now.'')])
     \<and> (coherent s \<longrightarrow> fire (LoadPOIs net) s = loadPOIs net s)"
proof -
  have f: "fetchOverpassPlaces c cat' net
       = (Inl (if \<not> ok status then OverpassError status else SyntaxError), rest)" for c cat'
    unfolding assms(1) by (rule fetch_failure [OF assms(2)])
  have l: "loadPOIs net s = (say ''Could not load nearby places right now.'' s)\<lparr>loadingPOI := False\<rparr>"
    if "coords s \<noteq> None"
    using that by (auto simp: loadPOIs_def f say_def Let_def)
  have c: "fire (LoadPOIs net) s = loadPOIs net s" if "coherent s"
    using loadPOIs_keeps [OF that, of net] by (simp add: coherent_idle)
  from f l c show ?thesis by (simp add: say_def)
qed

theorem findNearby_failure_keeps_places_witness:
  "\<not> ok 503 \<and> coords browsing \<noteq> None \<and> coherent browsing
   \<and> places browsing = nearby_expected
   \<and> fetchOverpassPlaces centre ''restaurant'' failing_answer
       = (Inl (OverpassError 503), overpass_answer)
   \<and> places (fire (LoadPOIs failing_answer) browsing) = nearby_expected
   \<and> messages (fire (LoadPOIs failing_answer) browsing)
       = messages browsing @ [(Assistant, Literal ''Could not load nearby places right now.'')]"
proof -
  have h1: "failing_answer = Response 503 (Some (Some [el_here])) # overpass_answer"
    by (rule failing_answer_def)
  have h2: "\<not> ok 503 \<or> Some (Some [el_here]) = None" by (simp add: ok_def)
  have c: "coherent browsing" unfolding browsing_def by (rule reachable_coherent)
  have n: "coords browsing \<noteq> None" by (simp add: browsing_state)
  from findNearby_failure_keeps_places [OF h1 h2, of centre "''restaurant''" browsing] c n h2
  show ?thesis by (simp add: browsing_state ok_def commit_fields say_def)
qed

section \<open>Planning a route\<close>

lemma routeTo_try_failure:
  assumes "\<not> ok status \<or> body = Some None \<or> body = Some (Some [])"
  shows "routeTo_try (Response status body) fb s
     = (Some (if \<not> ok status then OSRMError status else NoRouteFound), s)"
  using assms by (auto simp: routeTo_try_def)

lemma routeTo_try_success:
  assumes "routeTo_try res fb s = (None, s')"
  shows "\<exists>status route others. res = Response status (Some (Some (route # others))) \<and> ok status \<and> fb
     \<and> s' = setRouteSteps
            (case legs route of None \<Rightarrow> [] | Some [] \<Rightarrow> []
             | Some (leg # legs') \<Rightarrow> (case steps leg of None \<Rightarrow> [] | Some st \<Rightarrow> st))
            (s\<lparr>routePolylineRef := Some (map (\<lambda>(lon', lat'). (lat', lon')) (geometry route))\<rparr>)"
  using assms
  by (auto simp: routeTo_try_def Let_def split: response.splits option.splits list.splits if_splits)

lemma guiding_polyline: "routePolylineRef guiding = Some [(0, 1), (0, 0)] \<and> messages guiding = messages init"
  by (simp add: guiding_def route_answer_def init_def machine_defs Let_def)

lemma located_state: "coords located = Some origin \<and> mapRef located \<and> routeSteps located = []
    \<and> routePolylineRef located = None"
  by (simp add: located_def init_def machine_defs Let_def)

text \<open>
  Claim C4. routeTo fails when the routing service answers with a non-success status and
  when the answer holds no route alternative (the field missing or the list empty): the
  try block throws before it has changed anything, and routeTo only appends a message.
  The polyline, the route steps, the guidance text, distance and marker, and the position
  watch are as they were; in a coherent state the commit that follows changes nothing
  either.
\<close>

theorem routeTo_failure_untouched:
  assumes "res = Response status body"
    and "\<not> ok status \<or> body = Some None \<or> body = Some (Some [])"
  shows "routeTo_try res fb s = (Some (if \<not> ok status then OSRMError status else NoRouteFound), s)
     \<and> routeTo place res fb s
         = say (if coords s = None \<or> \<not> mapRef s then ''Share your location to draw a route.''
                else ''Could not draw route on the map.'') s
     \<and> routePolylineRef (routeTo place res fb s) = routePolylineRef s
     \<and> routeSteps (routeTo place res fb s) = routeSteps s
     \<and> nextTurnText (routeTo place res fb s) = nextTurnText s
     \<and> nextTurnDistance (routeTo place res fb s) = nextTurnDistance s
     \<and> nextTurnMarkerRef (routeTo place res fb s) = nextTurnMarkerRef s
     \<and> watchIdRef (routeTo place res fb s) = watchIdRef s
     \<and> watchers (routeTo place res fb s) = watchers s
     \<and> (coherent s \<longrightarrow> fire (RouteTo place res fb) s = routeTo place res fb s)"
proof -
  note t = routeTo_try_failure [OF assms(2), of fb s, folded assms(1)]
  have r: "routeTo place res fb s
         = say (if coords s = None \<or> \<not> mapRef s then ''Share your location to draw a route.''
                else ''Could not draw route on the map.'') s"
    by (simp add: routeTo_def t)
  have c: "fire (RouteTo place res fb) s = routeTo place res fb s" if "coherent s"
  proof -
    from that have "\<not> coordsChanged s" "\<not> stepsChanged s" by (simp_all add: coherent_def)
    then show ?thesis by (simp add: r say_def commit_idle)
  qed
  from t r c show ?thesis by (simp add: say_def)
qed

theorem routeTo_failure_untouched_witness:
  "\<not> ok 500 \<and> coherent guiding
   \<and> routePolylineRef (fire (RouteTo cafe (Response 500 None) True) guiding) = Some [(0, 1), (0, 0)]
   \<and> routeSteps (fire (RouteTo cafe (Response 500 None) True) guiding)
       = [step_east, step_turn, step_arrive]
   \<and> watchIdRef (fire (RouteTo cafe (Response 500 None) True) guiding) = Some 0
   \<and> messages (fire (RouteTo cafe (Response 500 None) True) guiding)
       = messages guiding @ [(Assistant, Literal ''Could not draw route on the map.'')]
   \<and> routeTo_try (Response 200 (Some (Some []))) True guiding = (Some NoRouteFound, guiding)"
proof -
  have h: "\<not> ok 500 \<or> None = Some None \<or> None = Some (Some [])" by (simp add: ok_def)
  have h': "\<not> ok 200 \<or> Some (Some []) = Some None \<or> Some (Some []) = Some (Some [])" by simp
  have c: "coherent guiding" unfolding guiding_def by (rule reachable_coherent)
  have k: "ok 200" "\<not> ok 500" by (simp_all add: ok_def)
  note a = routeTo_failure_untouched [OF refl h, of True guiding cafe]
  note b = routeTo_failure_untouched [OF refl h', of True guiding cafe]
  from a c have f: "fire (RouteTo cafe (Response 500 None) True) guiding
      = routeTo cafe (Response 500 None) True guiding" by blast
  from a have r: "routeTo cafe (Response 500 None) True guiding
      = say (if coords guiding = None \<or> \<not> mapRef guiding then ''Share your location to draw a route.''
             else ''Could not draw route on the map.'') guiding" by blast
  from b k have t: "routeTo_try (Response 200 (Some (Some []))) True guiding = (Some NoRouteFound, guiding)"
    by simp
  have "routePolylineRef (say ''Could not draw route on the map.'' guiding) = Some [(0, 1), (0, 0)]"
    "routeSteps (say ''Could not draw route on the map.'' guiding) = [step_east, step_turn, step_arrive]"
    "watchIdRef (say ''Could not draw route on the map.'' guiding) = Some 0"
    "messages (say ''Could not draw route on the map.'' guiding)
       = messages guiding @ [(Assistant, Literal ''Could not draw route on the map.'')]"
    by (simp_all add: say_def guiding_state guiding_polyline)
  with c k t show ?thesis unfolding f r by (simp add: guiding_state)
qed

text \<open>
  Claim C6. Whenever the try block of routeTo completes, the answer had a success status
  and at least one route; only the first route is used (the same call with the other
  alternatives removed gives the same state); the polyline has one point per geometry
  pair, with lat the pair's second element and lon its first; and the route steps are
  those of the first leg (no steps when the legs or the first leg's steps are missing),
  so the later legs of a multi-leg answer are dropped.
\<close>

theorem routeTo_success_first_route:
  assumes "routeTo_try res fb s = (None, s')"
  shows "\<exists>status route others latlngs.
       res = Response status (Some (Some (route # others))) \<and> ok status
     \<and> routeTo_try (Response status (Some (Some [route]))) fb s = (None, s')
     \<and> routePolylineRef s' = Some latlngs
     \<and> length latlngs = length (geometry route)
     \<and> (\<forall>i<length latlngs. fst (latlngs ! i) = snd (geometry route ! i)
            \<and> snd (latlngs ! i) = fst (geometry route ! i))
     \<and> routeSteps s' = (case legs route of None \<Rightarrow> [] | Some [] \<Rightarrow> []
                         | Some (leg # legs') \<Rightarrow> (case steps leg of None \<Rightarrow> [] | Some st \<Rightarrow> st))
     \<and> (\<forall>leg legs' st. legs route = Some (leg # legs') \<and> steps leg = Some st \<longrightarrow> routeSteps s' = st)
     \<and> (coords s \<noteq> None \<and> mapRef s \<longrightarrow> routeTo place res fb s = s')"
proof -
  from routeTo_try_success [OF assms] obtain status route others where
    res: "res = Response status (Some (Some (route # others)))" and ok: "ok status" and fb: fb
    and s': "s' = setRouteSteps
            (case legs route of None \<Rightarrow> [] | Some [] \<Rightarrow> []
             | Some (leg # legs') \<Rightarrow> (case steps leg of None \<Rightarrow> [] | Some st \<Rightarrow> st))
            (s\<lparr>routePolylineRef := Some (map (\<lambda>(lon', lat'). (lat', lon')) (geometry route))\<rparr>)"
    by blast
  define latlngs where "latlngs = map (\<lambda>(lon', lat'). (lat', lon')) (geometry route)"
  have one: "routeTo_try (Response status (Some (Some [route]))) fb s = (None, s')"
    using ok fb by (simp add: routeTo_try_def s' Let_def)
  have poly: "routePolylineRef s' = Some latlngs" by (simp add: s' setRouteSteps_def latlngs_def)
  have len: "length latlngs = length (geometry route)" by (simp add: latlngs_def)
  have swap: "\<forall>i<length latlngs. fst (latlngs ! i) = snd (geometry route ! i)
            \<and> snd (latlngs ! i) = fst (geometry route ! i)"
    by (simp add: latlngs_def split_beta)
  have st: "routeSteps s' = (case legs route of None \<Rightarrow> [] | Some [] \<Rightarrow> []
                         | Some (leg # legs') \<Rightarrow> (case steps leg of None \<Rightarrow> [] | Some st \<Rightarrow> st))"
    by (simp add: s' setRouteSteps_def)
  have st': "\<forall>leg legs' st. legs route = Some (leg # legs') \<and> steps leg = Some st \<longrightarrow> routeSteps s' = st"
    by (simp add: st)
  have call: "coords s \<noteq> None \<and> mapRef s \<longrightarrow> routeTo place res fb s = s'"
    using assms by (simp add: routeTo_def)
  from res ok one poly len swap st st' call show ?thesis by blast
qed

theorem routeTo_success_first_route_witness:
  "routeTo_try two_routes True located = (None, routeTo cafe two_routes True located)
   \<and> routePolylineRef (routeTo cafe two_routes True located) = Some [(0, 1), (1 / 4, 1 / 2), (0, 0)]
   \<and> routeSteps (routeTo cafe two_routes True located) = [step_east, step_turn]"
proof -
  have h: "routeTo_try two_routes True located = (None, routeTo cafe two_routes True located)"
    by (simp add: routeTo_def routeTo_try_def two_routes_def located_state ok_def Let_def)
  from routeTo_success_first_route [OF h, of cafe]
  obtain status :: nat and route :: Route and others :: "Route list" and latlngs :: "(real \<times> real) list"
    where res: "two_routes = Response status (Some (Some (route # others)))"
      and poly: "routePolylineRef (routeTo cafe two_routes True located) = Some latlngs"
      and len: "length latlngs = length (geometry route)"
      and swap: "\<forall>i<length latlngs. fst (latlngs ! i) = snd (geometry route ! i)
            \<and> snd (latlngs ! i) = fst (geometry route ! i)"
      and st: "\<forall>leg legs' st. legs route = Some (leg # legs') \<and> steps leg = Some st
            \<longrightarrow> routeSteps (routeTo cafe two_routes True located) = st"
    by blast
  from res have route: "geometry route = [(1, 0), (1 / 2, 1 / 4), (0, 0)]"
    "legs route = Some [\<lparr>steps = Some [step_east, step_turn]\<rparr>, \<lparr>steps = Some [step_arrive]\<rparr>]"
    by (auto simp: two_routes_def)
  from st route(2) have steps: "routeSteps (routeTo cafe two_routes True located) = [step_east, step_turn]"
    by simp
  from len route(1) have l3: "length latlngs = 3" by simp
  with swap route(1) have "latlngs ! 0 = (0, 1)" "latlngs ! Suc 0 = (1 / 4, 1 / 2)"
    "latlngs ! Suc (Suc 0) = (0, 0)"
    by (simp_all add: prod_eq_iff numeral_2_eq_2)
  with l3 have "latlngs = [(0, 1), (1 / 4, 1 / 2), (0, 0)]"
    by (intro nth_equalityI) (auto simp: less_Suc_eq numeral_3_eq_3)
  with h poly steps show ?thesis by simp
qed

section \<open>The lifecycle of the position watch\<close>

lemma coherent_watchers:
  "coherent s \<Longrightarrow> length (watchers s) \<le> 1
     \<and> (watchIdRef s = None \<longrightarrow> watchers s = [])
     \<and> (routeSteps s = [] \<longrightarrow> watchIdRef s = None)"
  by (auto simp: coherent_def split: option.splits)

lemma idle_position_update: "coherent s \<Longrightarrow> watchIdRef s = None \<Longrightarrow> fire (PositionUpdate c) s = s"
  using deliver_coherent [of s c] by simp

lemma clearRoute_fields:
  "nextTurnText (clearRoute s) = None \<and> nextTurnDistance (clearRoute s) = None
   \<and> nextTurnMarkerRef (clearRoute s) = None \<and> routeSteps (clearRoute s) = []
   \<and> routePolylineRef (clearRoute s) = None \<and> watchIdRef (clearRoute s) = None
   \<and> coords (clearRoute s) = coords s"
  by (simp add: clearRoute_def setRouteSteps_def clearWatch_def Let_def split: option.splits)

lemma guard_starts_no_watch:
  "watchIdRef t \<noteq> None \<Longrightarrow> length (watchers (guidance_effect t)) \<le> length (watchers t)"
  by (auto simp: guidance_effect_def clearWatch_def split: option.splits)

lemma position_error_fields:
  assumes "coherent s"
  shows "fire PositionError s = (if watchIdRef s = None then s else s\<lparr>warnings := Suc (warnings s)\<rparr>)"
  using deliver_error_coherent [OF assms] by (simp add: watch_error_def)

lemma handler_keeps_route:
  assumes "e \<noteq> ClearRoute" and "\<forall>place res. e \<noteq> RouteTo place res True" and "coherent s"
  shows "routeSteps (fire e s) = routeSteps s \<and> (coords s \<noteq> None \<longrightarrow> coords (fire e s) \<noteq> None)"
proof (cases e)
  case (RouteTo place res fb)
  with assms(2) have "\<not> fb" by auto
  then have "routeSteps (routeTo place res fb s) = routeSteps s \<and> coords (routeTo place res fb s) = coords s"
    by (auto simp: routeTo_def routeTo_try_def say_def Let_def
        split: response.splits option.splits list.splits)
  with RouteTo show ?thesis by (simp add: commit_fields)
next
  case (PositionUpdate c)
  show ?thesis
    unfolding PositionUpdate deliver_coherent [OF assms(3)]
    by (simp add: commit_fields watch_success_def setCoords_def Let_def split: option.splits)
next
  case PositionError
  show ?thesis unfolding PositionError position_error_fields [OF assms(3)] by simp
next
  case (LoadPOIs net)
  then show ?thesis
    by (simp add: commit_fields loadPOIs_def say_def Let_def split: option.splits sum.splits)
qed (use assms(1) in \<open>simp_all add: commit_fields setCoords_def requestLocation_def Let_def\<close>)

lemma coords_stay:
  "coherent s \<Longrightarrow> coords s \<noteq> None \<Longrightarrow> coords (fire e s) \<noteq> None"
proof (cases e)
  case (RouteTo place res fb)
  assume "coords s \<noteq> None"
  then have "coords (routeTo place res fb s) \<noteq> None"
    by (auto simp: routeTo_def routeTo_try_def say_def setRouteSteps_def Let_def
        split: response.splits option.splits list.splits)
  with RouteTo show ?thesis by (simp add: commit_fields)
next
  case ClearRoute
  assume "coords s \<noteq> None"
  with ClearRoute show ?thesis by (simp add: commit_fields clearRoute_fields)
next
  case (PositionUpdate c)
  assume "coherent s" "coords s \<noteq> None"
  then show ?thesis
    unfolding PositionUpdate deliver_coherent [OF \<open>coherent s\<close>]
    by (simp add: commit_fields watch_success_def setCoords_def Let_def split: option.splits)
next
  case PositionError
  assume "coherent s" "coords s \<noteq> None"
  then show ?thesis unfolding PositionError position_error_fields [OF \<open>coherent s\<close>] by simp
next
  case (LoadPOIs net)
  assume "coords s \<noteq> None"
  with LoadPOIs show ?thesis
    by (auto simp: commit_fields loadPOIs_def say_def Let_def split: option.splits sum.splits)
qed (simp_all add: commit_fields setCoords_def requestLocation_def Let_def)

lemma turning_guiding: "turning = fire (PositionUpdate origin) guiding"
  by (simp add: turning_def guiding_def)

lemma turning_state:
  "nextTurnText turning = Some ''turn left on Elm St'' \<and> nextTurnDistance turning = Some 0
   \<and> watchIdRef turning \<noteq> None \<and> coherent turning
   \<and> routeSteps turning = [step_east, step_turn, step_arrive]"
proof -
  have h1: "coherent guiding" unfolding guiding_def by (rule reachable_coherent)
  have h2: "watchIdRef guiding \<noteq> None" by (simp add: guiding_state)
  have c: "coherent turning" unfolding turning_def by (rule reachable_coherent)
  have "nextTurnText turning = Some (instruction step_turn)
      \<and> nextTurnDistance turning = Some (Math_round 0)"
    unfolding turning_guiding using position_update_guiding [OF h1 h2, of origin]
    by (simp add: watch_success_text guiding_state sample_nearest)
  moreover have "instruction step_turn = ''turn left on Elm St''"
    by (simp add: instruction_def str_or_def step_turn_def)
  moreover have "Math_round 0 = 0" by (simp add: Math_round_def)
  moreover have r: "routeSteps turning = [step_east, step_turn, step_arrive]"
    unfolding turning_guiding deliver_coherent [OF h1] using h2
    by (simp add: commit_fields watch_success_def setCoords_def guiding_state Let_def
        split: option.splits)
  moreover have "coords turning \<noteq> None"
    unfolding turning_guiding by (rule coords_stay [OF h1]) (simp add: guiding_state)
  ultimately show ?thesis using c by (simp add: coherent_def)
qed

text \<open>
  Claim C2. In every state the component reaches, at most one position watch is
  registered with the platform. The guidance effect, run while a watch is held, registers
  no further watch. Clearing the route cancels the watch, removes the next-turn marker,
  nulls the guidance text and distance and empties the step list, and a position update
  that arrives afterwards changes nothing. Whenever the step list is empty no watch is
  held, and a position update changes nothing.
\<close>

theorem watch_lifecycle:
  "length (watchers (run es init)) \<le> 1
   \<and> (watchIdRef t \<noteq> None \<longrightarrow> length (watchers (guidance_effect t)) \<le> length (watchers t))
   \<and> watchIdRef (fire ClearRoute (run es init)) = None
   \<and> watchers (fire ClearRoute (run es init)) = []
   \<and> nextTurnMarkerRef (fire ClearRoute (run es init)) = None
   \<and> nextTurnText (fire ClearRoute (run es init)) = None
   \<and> nextTurnDistance (fire ClearRoute (run es init)) = None
   \<and> routeSteps (fire ClearRoute (run es init)) = []
   \<and> fire (PositionUpdate c) (fire ClearRoute (run es init)) = fire ClearRoute (run es init)
   \<and> (routeSteps (run es init) = [] \<longrightarrow>
        watchIdRef (run es init) = None \<and> watchers (run es init) = []
        \<and> fire (PositionUpdate c) (run es init) = run es init)"
proof -
  define s where "s = run es init"
  define s' where "s' = fire ClearRoute s"
  have coh: "coherent s" unfolding s_def by (rule reachable_coherent)
  have coh': "coherent s'" unfolding s'_def by (rule fire_coherent [OF coh])
  have f: "nextTurnMarkerRef s' = None" "nextTurnText s' = None" "nextTurnDistance s' = None"
    "routeSteps s' = []"
    by (simp_all add: s'_def commit_fields clearRoute_fields)
  from coherent_watchers [OF coh'] f(4) have w: "watchIdRef s' = None" "watchers s' = []"
    by simp_all
  have u: "fire (PositionUpdate c) s' = s'" by (rule idle_position_update [OF coh' w(1)])
  have e: "watchIdRef s = None \<and> watchers s = [] \<and> fire (PositionUpdate c) s = s"
    if "routeSteps s = []"
    using coherent_watchers [OF coh] that idle_position_update [OF coh] by simp
  from coherent_watchers [OF coh] guard_starts_no_watch [of t] f w u e
  show ?thesis unfolding s_def [symmetric] s'_def [symmetric] by simp
qed

theorem watch_lifecycle_witness:
  "length (watchers turning) \<le> 1 \<and> watchIdRef turning \<noteq> None
   \<and> length (watchers (guidance_effect turning)) \<le> length (watchers turning)
   \<and> nextTurnText turning = Some ''turn left on Elm St''
   \<and> nextTurnText (fire ClearRoute turning) = None
   \<and> nextTurnDistance (fire ClearRoute turning) = None
   \<and> nextTurnMarkerRef (fire ClearRoute turning) = None
   \<and> watchIdRef (fire ClearRoute turning) = None
   \<and> watchers (fire ClearRoute turning) = []
   \<and> fire (PositionUpdate centre) (fire ClearRoute turning) = fire ClearRoute turning
   \<and> routeSteps located = [] \<and> watchers located = []
   \<and> fire (PositionUpdate centre) located = located"
proof -
  note a = watch_lifecycle [of "[Preload origin,
      RouteTo cafe (route_answer [step_east, step_turn, step_arrive]) True, PositionUpdate origin]"
      turning centre, folded turning_def]
  note b = watch_lifecycle [of "[Preload origin]" turning centre, folded located_def]
  from a b turning_state located_state show ?thesis by simp
qed

text \<open>
  Claim C9. In every state the component reaches, a position error only counts one
  more warning when a watch is held (and does nothing otherwise): text, distance, marker,
  coordinates and steps are unchanged and the watch stays registered. A held watch is
  given up by an event only if that event is a route-clear or a completed routeTo, and
  then the step list is empty afterwards; so a position error never ends guidance.
\<close>

theorem position_error_ignored:
  "fire PositionError (run es init)
     = (if watchIdRef (run es init) = None then run es init
        else (run es init)\<lparr>warnings := Suc (warnings (run es init))\<rparr>)
   \<and> nextTurnText (fire PositionError (run es init)) = nextTurnText (run es init)
   \<and> nextTurnDistance (fire PositionError (run es init)) = nextTurnDistance (run es init)
   \<and> nextTurnMarkerRef (fire PositionError (run es init)) = nextTurnMarkerRef (run es init)
   \<and> coords (fire PositionError (run es init)) = coords (run es init)
   \<and> routeSteps (fire PositionError (run es init)) = routeSteps (run es init)
   \<and> watchIdRef (fire PositionError (run es init)) = watchIdRef (run es init)
   \<and> watchers (fire PositionError (run es init)) = watchers (run es init)
   \<and> (watchIdRef (run es init) \<noteq> None \<and> watchIdRef (fire e (run es init)) = None \<longrightarrow>
        (e = ClearRoute \<or> (\<exists>place res. e = RouteTo place res True))
        \<and> routeSteps (fire e (run es init)) = [])"
proof -
  define s where "s = run es init"
  have coh: "coherent s" unfolding s_def by (rule reachable_coherent)
  note err = position_error_fields [OF coh]
  have ends: "(e = ClearRoute \<or> (\<exists>place res. e = RouteTo place res True))
        \<and> routeSteps (fire e s) = []"
    if w: "watchIdRef s \<noteq> None" and n: "watchIdRef (fire e s) = None"
  proof -
    have coh': "coherent (fire e s)" by (rule fire_coherent [OF coh])
    from coh w have cs: "coords s \<noteq> None" "routeSteps s \<noteq> []" by (auto simp: coherent_def)
    from coords_stay [OF coh cs(1)] have c': "coords (fire e s) \<noteq> None" .
    from coh' n c' have empty: "routeSteps (fire e s) = []" by (auto simp: coherent_def)
    have "e = ClearRoute \<or> (\<exists>place res. e = RouteTo place res True)"
    proof (rule ccontr)
      assume "\<not> (e = ClearRoute \<or> (\<exists>place res. e = RouteTo place res True))"
      then have "e \<noteq> ClearRoute" "\<forall>place res. e \<noteq> RouteTo place res True" by auto
      from handler_keeps_route [OF this coh] empty cs(2) show False by simp
    qed
    with empty show ?thesis by simp
  qed
  from err ends show ?thesis unfolding s_def [symmetric] by (simp split: if_splits)
qed

theorem position_error_ignored_witness:
  "watchIdRef turning \<noteq> None
   \<and> nextTurnText (fire PositionError turning) = Some ''turn left on Elm St''
   \<and> nextTurnDistance (fire PositionError turning) = Some 0
   \<and> watchIdRef (fire PositionError turning) = watchIdRef turning
   \<and> watchers (fire PositionError turning) = watchers turning
   \<and> warnings (fire PositionError turning) = Suc (warnings turning)
   \<and> watchIdRef (fire ClearRoute turning) = None
   \<and> routeSteps (fire ClearRoute turning) = []"
proof -
  note a = position_error_ignored [of "[Preload origin,
      RouteTo cafe (route_answer [step_east, step_turn, step_arrive]) True, PositionUpdate origin]"
      ClearRoute, folded turning_def]
  have n: "watchIdRef (fire ClearRoute turning) = None"
    by (simp add: commit_fields clearRoute_fields commit_def guidance_effect_def
        guidance_cleanup_def map_effect_def Let_def clearWatch_def split: option.splits)
  from a n turning_state show ?thesis by simp
qed

section \<open>Guidance without a maneuver\<close>

lemma commit_mapRef: "mapRef s \<Longrightarrow> mapRef (commit s)"
  by (simp add: commit_def guidance_effect_def guidance_cleanup_def map_effect_def
      clearWatch_def watchPosition_def Let_def split: option.splits)

lemma turning_map: "mapRef turning \<and> coords turning \<noteq> None"
proof -
  have h1: "coherent guiding" unfolding guiding_def by (rule reachable_coherent)
  have h2: "watchIdRef guiding \<noteq> None" by (simp add: guiding_state)
  have "mapRef (watch_success (routeSteps guiding) origin guiding)"
    by (simp add: watch_success_def setCoords_def guiding_state Let_def split: option.splits)
  then have "mapRef turning"
    unfolding turning_guiding deliver_coherent [OF h1] using h2 by (auto simp: commit_mapRef)
  moreover from turning_state have "coords turning \<noteq> None" by (auto simp: coherent_def)
  ultimately show ?thesis by simp
qed

lemma rerouted_turning: "rerouted = fire (RouteTo cafe (route_answer []) True) turning"
  by (simp add: rerouted_def turning_def)

lemma rerouted_state:
  "coherent rerouted \<and> routeSteps rerouted = [] \<and> watchIdRef rerouted = None
   \<and> nextTurnText rerouted = Some ''turn left on Elm St'' \<and> nextTurnDistance rerouted = Some 0"
proof -
  have c: "coherent rerouted" unfolding rerouted_def by (rule reachable_coherent)
  have r: "routeTo cafe (route_answer []) True turning
      = setRouteSteps [] (turning\<lparr>routePolylineRef := Some [(0, 1), (0, 0)]\<rparr>)"
    using turning_map
    by (auto simp: routeTo_def routeTo_try_def route_answer_def ok_def Let_def)
  have f: "routeSteps rerouted = []" "nextTurnText rerouted = Some ''turn left on Elm St''"
    "nextTurnDistance rerouted = Some 0"
    unfolding rerouted_turning fire.simps
    by (simp_all add: commit_fields r setRouteSteps_def turning_state)
  from coherent_watchers [OF c] f(1) have "watchIdRef rerouted = None" by simp
  with c f show ?thesis by simp
qed

text \<open>
  A route with zero steps does not by itself give the empty guidance state. The component
  guides along a three-step route, takes a position update (text and distance are set),
  and then routeTo completes with an answer whose first leg has no steps: routeTo replaces
  the steps and leaves text and distance alone, the effect gives up the watch, and the
  next position update reaches no callback. The step list is empty and the text is still
  that of the old route.
\<close>

theorem zero_step_route_keeps_stale_guidance:
  "routeSteps rerouted = []
   \<and> nextTurnText (fire (PositionUpdate origin) rerouted) = Some ''turn left on Elm St''
   \<and> nextTurnDistance (fire (PositionUpdate origin) rerouted) = Some 0
   \<and> nextTurnText (fire (PositionUpdate origin) rerouted) \<noteq> None"
proof -
  from rerouted_state have "fire (PositionUpdate origin) rerouted = rerouted"
    by (intro idle_position_update) simp_all
  with rerouted_state show ?thesis by simp
qed

text \<open>
  Claim C8, as the code has it. In a coherent state (every state the component reaches)
  that holds a watch over steps none of which has a maneuver, a position update selects
  no step and leaves text and distance null, takes the new coordinates and keeps the
  watch: a gap in guidance, not a failure. When the step list is empty no watch is held,
  and a position update reaches no callback and changes nothing.
\<close>

theorem maneuverless_guidance:
  assumes "coherent s"
  shows "(watchIdRef s \<noteq> None \<and> (\<forall>st\<in>set (routeSteps s). maneuver st = None) \<longrightarrow>
            nearest (routeSteps s) c = None
            \<and> nextTurnText (fire (PositionUpdate c) s) = None
            \<and> nextTurnDistance (fire (PositionUpdate c) s) = None
            \<and> coords (fire (PositionUpdate c) s) = Some c
            \<and> watchIdRef (fire (PositionUpdate c) s) \<noteq> None)
     \<and> (routeSteps s = [] \<longrightarrow>
            watchIdRef s = None \<and> watchers s = [] \<and> fire (PositionUpdate c) s = s)"
proof -
  have a: "nearest (routeSteps s) c = None
      \<and> nextTurnText (fire (PositionUpdate c) s) = None
      \<and> nextTurnDistance (fire (PositionUpdate c) s) = None
      \<and> coords (fire (PositionUpdate c) s) = Some c
      \<and> watchIdRef (fire (PositionUpdate c) s) \<noteq> None"
    if w: "watchIdRef s \<noteq> None" and none: "\<forall>st\<in>set (routeSteps s). maneuver st = None"
  proof -
    from none have n: "nearest (routeSteps s) c = None" by (simp add: nearest_None_iff)
    note p = position_update_guiding [OF assms w, of c]
    have coh': "coherent (fire (PositionUpdate c) s)" by (rule fire_coherent [OF assms])
    have "routeSteps (fire (PositionUpdate c) s) = routeSteps s"
      using handler_keeps_route [of "PositionUpdate c" s] assms by simp
    moreover from assms w have "routeSteps s \<noteq> []" by (auto simp: coherent_def)
    ultimately have "watchIdRef (fire (PositionUpdate c) s) \<noteq> None"
      using coh' p by (auto simp: coherent_def)
    with n p show ?thesis by (simp add: watch_success_text)
  qed
  have b: "watchIdRef s = None \<and> watchers s = [] \<and> fire (PositionUpdate c) s = s"
    if "routeSteps s = []"
    using coherent_watchers [OF assms] that idle_position_update [OF assms] by simp
  from a b show ?thesis by blast
qed

theorem maneuverless_guidance_witness:
  "coherent guiding_plain \<and> watchIdRef guiding_plain \<noteq> None
   \<and> routeSteps guiding_plain = [step_plain] \<and> maneuver step_plain = None
   \<and> nextTurnText (fire (PositionUpdate origin) guiding_plain) = None
   \<and> nextTurnDistance (fire (PositionUpdate origin) guiding_plain) = None
   \<and> watchIdRef (fire (PositionUpdate origin) guiding_plain) \<noteq> None
   \<and> coherent located \<and> routeSteps located = []
   \<and> watchIdRef located = None
   \<and> fire (PositionUpdate origin) located = located"
proof -
  have c: "coherent guiding_plain" unfolding guiding_plain_def by (rule reachable_coherent)
  have l: "coherent located" unfolding located_def by (rule reachable_coherent)
  have w: "watchIdRef guiding_plain \<noteq> None" "routeSteps guiding_plain = [step_plain]"
    by (simp_all add: guiding_plain_state)
  have m: "maneuver step_plain = None" by (simp add: step_plain_def)
  from maneuverless_guidance [OF c, of origin] maneuverless_guidance [OF l, of origin]
    c l w m located_state
  show ?thesis by simp
qed

end
